theory Spec2Isabelle
  imports Complex_Main
begin

section \<open>Python values shared by the four scripts\<close>

text \<open>
  The scripts under \<^verbatim>\<open>.github/scripts\<close> are Python. An exception that leaves a
  function, and \<^verbatim>\<open>sys.exit(n)\<close>, are values of the type \<open>error\<close>; a function that
  can raise returns \<open>error + 'a\<close> with \<open>Inl\<close> for the exception. Python's \<^verbatim>\<open>int\<close> is
  \<open>int\<close>. A Python \<^verbatim>\<open>float\<close> is idealised as a rational number; the properties proved
  below order percentages and relate them to the line counts, and none of them rests on
  how a sum of floats is rounded.
\<close>

datatype error =
    IndexError
  | FileNotFoundError
  | SameFileError
  | SystemExit int

subsection \<open>String operations\<close>

text \<open>\<^verbatim>\<open>s.startswith(p)\<close>, written with the prefix first.\<close>

fun startswith :: "string \<Rightarrow> string \<Rightarrow> bool" where
  "startswith [] s = True"
| "startswith (p # ps) [] = False"
| "startswith (p # ps) (c # cs) = (p = c \<and> startswith ps cs)"

text \<open>\<^verbatim>\<open>s.endswith(suf)\<close>.\<close>

definition endswith :: "string \<Rightarrow> string \<Rightarrow> bool" where
  "endswith s suf = (drop (length s - length suf) s = suf)"

text \<open>\<^verbatim>\<open>sub in s\<close> on strings: \<open>sub\<close> occurs in \<open>s\<close> as a contiguous substring.\<close>

fun str_in :: "string \<Rightarrow> string \<Rightarrow> bool" where
  "str_in sub [] = (sub = [])"
| "str_in sub (c # cs) = (startswith sub (c # cs) \<or> str_in sub cs)"

section \<open>Coverage Analyzer: \<^verbatim>\<open>analyze_coverage.py\<close>\<close>

subsection \<open>The coverage report\<close>

text \<open>
  The JSON document of \<^verbatim>\<open>cargo llvm-cov --json\<close>. Every key is read with
  \<^verbatim>\<open>.get(key, default)\<close>, so every field is optional; \<open>None\<close> is the absent key.
  The \<^verbatim>\<open>regions\<close> and \<^verbatim>\<open>functions\<close> dictionaries are only passed through.
\<close>

type_synonym json_dict = "(string \<times> int) list"

record line_counts =
  covered :: "int option"
  count :: "int option"

record summary_data =
  sm_lines :: "line_counts option"
  sm_regions :: "json_dict option"
  sm_functions :: "json_dict option"

record file_data =
  filename :: "string option"
  summary :: "summary_data option"

record data_entry =
  files :: "file_data list option"

record coverage_data =
  data :: "data_entry list option"

text \<open>The \<^verbatim>\<open>stats\<close> dictionary built for a file that is kept.\<close>

record stats =
  st_covered :: int
  st_total :: int
  st_coverage :: rat
  st_regions :: json_dict
  st_functions :: json_dict

type_synonym file_stat = "string \<times> rat \<times> stats"

text \<open>
  \<^verbatim>\<open>coverage_data.get("data", [{}])[0].get("files", [])\<close>: an absent \<^verbatim>\<open>data\<close> key
  gives the empty file list, an empty \<^verbatim>\<open>data\<close> array raises at \<^verbatim>\<open>[0]\<close>.
\<close>

definition report_files :: "coverage_data \<Rightarrow> error + file_data list" where
  "report_files coverage_data =
     (case data coverage_data of
        None \<Rightarrow> Inr []
      | Some [] \<Rightarrow> Inl IndexError
      | Some (d # _) \<Rightarrow> Inr (case files d of None \<Rightarrow> [] | Some fs \<Rightarrow> fs))"

text \<open>The reads of one \<^verbatim>\<open>file_data\<close> entry, with the defaults of the source.\<close>

definition get_filename :: "file_data \<Rightarrow> string" where
  "get_filename file_data = (case filename file_data of None \<Rightarrow> [] | Some f \<Rightarrow> f)"

definition get_summary :: "file_data \<Rightarrow> summary_data" where
  "get_summary file_data =
     (case summary file_data of
        None \<Rightarrow> \<lparr>sm_lines = None, sm_regions = None, sm_functions = None\<rparr>
      | Some s \<Rightarrow> s)"

definition get_lines :: "summary_data \<Rightarrow> line_counts" where
  "get_lines s = (case sm_lines s of None \<Rightarrow> \<lparr>covered = None, count = None\<rparr> | Some l \<Rightarrow> l)"

definition get_covered :: "line_counts \<Rightarrow> int" where
  "get_covered l = (case covered l of None \<Rightarrow> 0 | Some c \<Rightarrow> c)"

definition get_count :: "line_counts \<Rightarrow> int" where
  "get_count l = (case count l of None \<Rightarrow> 0 | Some c \<Rightarrow> c)"

definition get_dict :: "json_dict option \<Rightarrow> json_dict" where
  "get_dict d = (case d of None \<Rightarrow> [] | Some x \<Rightarrow> x)"

text \<open>\<^verbatim>\<open>(covered / total) * 100\<close>, computed only under the guard \<^verbatim>\<open>total > 0\<close>.\<close>

definition coverage_pct :: "int \<Rightarrow> int \<Rightarrow> rat" where
  "coverage_pct c t = (of_int c / of_int t) * 100"

subsection \<open>\<^verbatim>\<open>extract_file_coverage\<close>\<close>

text \<open>
  The body of the \<^verbatim>\<open>for file_data in ...\<close> loop. Each \<^verbatim>\<open>continue\<close> is a recursive
  call with the list \<^verbatim>\<open>file_stats\<close> unchanged; \<^verbatim>\<open>file_stats.append\<close> adds at the end.
\<close>

fun extract_loop :: "file_data list \<Rightarrow> file_stat list \<Rightarrow> file_stat list" where
  "extract_loop [] file_stats = file_stats"
| "extract_loop (file_data # rest) file_stats =
     (let fname = get_filename file_data in
      if \<not> endswith fname ''.rs'' then extract_loop rest file_stats
      else if str_in ''target/'' fname \<or> str_in ''.cargo/'' fname
        then extract_loop rest file_stats
      else if str_in ''/tests/'' fname \<or> endswith fname ''_test.rs''
        then extract_loop rest file_stats
      else
        let s = get_summary file_data;
            l = get_lines s;
            c = get_covered l;
            t = get_count l
        in if t > 0
           then extract_loop rest
                  (file_stats @
                   [(fname, coverage_pct c t,
                     \<lparr>st_covered = c, st_total = t, st_coverage = coverage_pct c t,
                      st_regions = get_dict (sm_regions s),
                      st_functions = get_dict (sm_functions s)\<rparr>)])
           else extract_loop rest file_stats)"

definition extract_file_coverage :: "coverage_data \<Rightarrow> error + file_stat list" where
  "extract_file_coverage coverage_data =
     (case report_files coverage_data of
        Inl e \<Rightarrow> Inl e
      | Inr fs \<Rightarrow> Inr (extract_loop fs []))"

subsection \<open>\<^verbatim>\<open>find_least_covered_file\<close>\<close>

text \<open>
  \<^verbatim>\<open>sorted(file_stats, key=lambda x: x[1])\<close> is a stable sort on the percentage; it is
  \<open>sort_key\<close>, the stable insertion sort of the list library. \<^verbatim>\<open>sys.exit(1)\<close> on the
  empty list is \<open>SystemExit 1\<close>.
\<close>

definition find_least_covered_file :: "file_stat list \<Rightarrow> error + (string \<times> stats)" where
  "find_least_covered_file file_stats =
     (if file_stats = [] then Inl (SystemExit 1)
      else
        let sorted_files = sort_key (\<lambda>x. fst (snd x)) file_stats
        in case sorted_files of
             [] \<Rightarrow> Inl IndexError
           | least_covered # _ \<Rightarrow>
               (case least_covered of (fname, pct, st) \<Rightarrow> Inr (fname, st)))"

subsection \<open>\<^verbatim>\<open>main\<close> of the Analyzer\<close>

record overall_stats =
  total_files :: int
  average_coverage :: rat

record analysis =
  an_file :: string
  an_coverage :: rat
  an_stats :: stats

text \<open>
  The part of \<^verbatim>\<open>main\<close> after \<^verbatim>\<open>run_coverage()\<close>: what is written to
  \<^verbatim>\<open>/tmp/coverage_analysis.json\<close> and to \<^verbatim>\<open>/tmp/overall_coverage.json\<close>.

  The average is \<^verbatim>\<open>sum(x[1] for x in file_stats) / len(file_stats)\<close>. What the builtin
  \<^verbatim>\<open>sum\<close> returns for a list of floats is fixed by the interpreter and not by the
  script: it adds from the left up to CPython 3.11 and is a compensated sum from
  CPython 3.12, and the two round differently. The function is therefore a parameter,
  \<open>builtin_sum\<close>, of which nothing is assumed.
\<close>

definition analyze_main ::
    "(rat list \<Rightarrow> rat) \<Rightarrow> coverage_data \<Rightarrow> error + (analysis \<times> overall_stats)" where
  "analyze_main builtin_sum coverage_data =
     (case extract_file_coverage coverage_data of
        Inl e \<Rightarrow> Inl e
      | Inr file_stats \<Rightarrow>
          if file_stats = [] then Inl (SystemExit 1)
          else
            (case find_least_covered_file file_stats of
               Inl e \<Rightarrow> Inl e
             | Inr (least_covered_file, st) \<Rightarrow>
                 Inr (\<lparr>an_file = least_covered_file, an_coverage = st_coverage st,
                       an_stats = st\<rparr>,
                      \<lparr>total_files = int (length file_stats),
                       average_coverage =
                         builtin_sum (map (\<lambda>x. fst (snd x)) file_stats)
                           / of_int (int (length file_stats))\<rparr>)))"

section \<open>Report Generator: \<^verbatim>\<open>generate_report.py\<close>\<close>

text \<open>
  The loop of \<^verbatim>\<open>calculate_overall_coverage\<close> carries \<^verbatim>\<open>file_count\<close> and
  \<^verbatim>\<open>total_coverage\<close>, a running total to which each percentage is added in turn.
\<close>

fun overall_loop :: "file_data list \<Rightarrow> int \<Rightarrow> rat \<Rightarrow> int \<times> rat" where
  "overall_loop [] file_count total_coverage = (file_count, total_coverage)"
| "overall_loop (file_data # rest) file_count total_coverage =
     (let fname = get_filename file_data in
      if \<not> endswith fname ''.rs'' then overall_loop rest file_count total_coverage
      else if str_in ''target/'' fname \<or> str_in ''.cargo/'' fname
        then overall_loop rest file_count total_coverage
      else if str_in ''/tests/'' fname \<or> endswith fname ''_test.rs''
        then overall_loop rest file_count total_coverage
      else
        let s = get_summary file_data;
            l = get_lines s;
            c = get_covered l;
            t = get_count l
        in if t > 0
           then overall_loop rest (file_count + 1) (total_coverage + coverage_pct c t)
           else overall_loop rest file_count total_coverage)"

definition calculate_overall_coverage :: "coverage_data \<Rightarrow> error + overall_stats" where
  "calculate_overall_coverage coverage_data =
     (case report_files coverage_data of
        Inl e \<Rightarrow> Inl e
      | Inr fs \<Rightarrow>
          (case overall_loop fs 0 0 of
             (file_count, total_coverage) \<Rightarrow>
               if file_count > 0
               then Inr \<lparr>total_files = file_count,
                         average_coverage = total_coverage / of_int file_count\<rparr>
               else Inr \<lparr>total_files = 0, average_coverage = 0\<rparr>))"

section \<open>Test Generator: \<^verbatim>\<open>generate_tests.py\<close>\<close>

subsection \<open>More string operations\<close>

text \<open>
  A \<open>string\<close> is a list of characters; a character stands for a code point below 256.
  \<open>find_aux sub s i\<close> is the index of the first occurrence of \<open>sub\<close> in \<open>s\<close>, counted
  from \<open>i\<close>, or \<open>-1\<close>.
\<close>

fun find_aux :: "string \<Rightarrow> string \<Rightarrow> nat \<Rightarrow> int" where
  "find_aux sub [] i = (if sub = [] then int i else - 1)"
| "find_aux sub (c # cs) i =
     (if startswith sub (c # cs) then int i else find_aux sub cs (Suc i))"

text \<open>The clamping of a slice bound: a negative bound counts from the end.\<close>

definition clamp_index :: "string \<Rightarrow> int \<Rightarrow> nat" where
  "clamp_index s i =
     (let n = int (length s) in nat (if i < 0 then max 0 (n + i) else min i n))"

text \<open>\<^verbatim>\<open>s.find(sub, start)\<close>.\<close>

definition py_find :: "string \<Rightarrow> string \<Rightarrow> int \<Rightarrow> int" where
  "py_find s sub start =
     (if start > int (length s) then - 1
      else find_aux sub (drop (clamp_index s start) s) (clamp_index s start))"

text \<open>\<^verbatim>\<open>s[a:b]\<close>.\<close>

definition py_slice :: "string \<Rightarrow> int \<Rightarrow> int \<Rightarrow> string" where
  "py_slice s a b = take (clamp_index s b - clamp_index s a) (drop (clamp_index s a) s)"

text \<open>\<^verbatim>\<open>str.isspace\<close> on one character, and \<^verbatim>\<open>s.strip()\<close>.\<close>

definition is_space :: "char \<Rightarrow> bool" where
  "is_space c = ((of_char c :: nat) \<in> {9, 10, 11, 12, 13, 28, 29, 30, 31, 32, 133, 160})"

definition strip :: "string \<Rightarrow> string" where
  "strip s = rev (dropWhile is_space (rev (dropWhile is_space s)))"

text \<open>\<^verbatim>\<open>s.split('\n')\<close> and \<^verbatim>\<open>'\n'.join(lines)\<close>.\<close>

fun split_nl :: "string \<Rightarrow> string list" where
  "split_nl [] = [[]]"
| "split_nl (c # cs) =
     (if c = CHR 0x0A then [] # split_nl cs
      else (case split_nl cs of [] \<Rightarrow> [[c]] | l # ls \<Rightarrow> (c # l) # ls))"

fun join_nl :: "string list \<Rightarrow> string" where
  "join_nl [] = []"
| "join_nl [l] = l"
| "join_nl (l # ls) = l @ [CHR 0x0A] @ join_nl ls"

text \<open>\<^verbatim>\<open>xs.insert(i, x)\<close>.\<close>

definition list_insert :: "'a list \<Rightarrow> int \<Rightarrow> 'a \<Rightarrow> 'a list" where
  "list_insert xs i x =
     (let n = int (length xs);
          k = nat (if i < 0 then max 0 (n + i) else min i n)
      in take k xs @ [x] @ drop k xs)"

subsection \<open>Code extraction in \<^verbatim>\<open>call_github_models_api\<close>\<close>

definition rust_fence :: string where
  "rust_fence = ''```rust''"

definition fence :: string where
  "fence = ''```''"

text \<open>
  Lines 102 to 110: what the function returns for the message content
  \<open>generated_content\<close> of the response.
\<close>

definition extract_code :: "string \<Rightarrow> string" where
  "extract_code generated_content =
     (if str_in rust_fence generated_content then
        let start = py_find generated_content rust_fence 0 + 7;
            end = py_find generated_content fence start
        in if end > start then strip (py_slice generated_content start end)
           else generated_content
      else generated_content)"

subsection \<open>\<^verbatim>\<open>integrate_tests_into_file\<close>\<close>

definition cfg_test :: string where
  "cfg_test = ''#[cfg(test)]''"

text \<open>\<^verbatim>\<open>line.count('{') - line.count('}')\<close>, the change of \<^verbatim>\<open>brace_count\<close> by a line.\<close>

definition net_braces :: "string \<Rightarrow> int" where
  "net_braces line = int (count_list line (CHR ''{'')) - int (count_list line (CHR ''}''))"

text \<open>
  The \<^verbatim>\<open>for i, line in enumerate(lines)\<close> loop. The arguments after the index are the
  loop's variables; the value is \<^verbatim>\<open>insert_position\<close> when the loop ends, which is
  \<open>-1\<close> unless the \<^verbatim>\<open>break\<close> was reached.
\<close>

fun scan_lines :: "string list \<Rightarrow> nat \<Rightarrow> bool \<Rightarrow> int \<Rightarrow> int \<Rightarrow> int" where
  "scan_lines [] i in_test_module test_module_start brace_count = - 1"
| "scan_lines (line # rest) i in_test_module test_module_start brace_count =
     (if str_in cfg_test line then scan_lines rest (Suc i) True (int i) brace_count
      else if in_test_module then
        (let brace_count' = brace_count + net_braces line
         in if brace_count' = 0 \<and> str_in ''}'' line then int i
            else scan_lines rest (Suc i) in_test_module test_module_start brace_count')
      else scan_lines rest (Suc i) in_test_module test_module_start brace_count)"

text \<open>The last statement: a new test module around the generated tests, at the end.\<close>

definition append_test_module :: "string \<Rightarrow> string \<Rightarrow> string" where
  "append_test_module original_content generated_tests =
     original_content
     @ ''\<newline>\<newline>#[cfg(test)]\<newline>mod tests {\<newline>    use super::*;\<newline>\<newline>''
     @ generated_tests @ ''\<newline>}\<newline>''"

definition integrate_tests_into_file :: "string \<Rightarrow> string \<Rightarrow> string" where
  "integrate_tests_into_file original_content generated_tests =
     (if str_in cfg_test original_content then
        let lines = split_nl original_content;
            insert_position = scan_lines lines 0 False (- 1) 0
        in if insert_position > 0
           then join_nl (list_insert (list_insert lines insert_position generated_tests)
                           insert_position [])
           else append_test_module original_content generated_tests
      else append_test_module original_content generated_tests)"

section \<open>Test Validator: \<^verbatim>\<open>validate_tests.py\<close>\<close>

subsection \<open>Files, oracles and the state of the script\<close>

text \<open>
  The file system maps a path to the content of the file there. \<^verbatim>\<open>shutil.copy2\<close>
  refuses to copy a file onto itself, raises for a missing source, and otherwise
  replaces the content at the destination in one step.
\<close>

type_synonym path = string

type_synonym filesystem = "path \<rightharpoonup> string"

definition copy2 :: "path \<Rightarrow> path \<Rightarrow> filesystem \<Rightarrow> error + filesystem" where
  "copy2 src dst files_now =
     (if src = dst then Inl SameFileError
      else case files_now src of
             None \<Rightarrow> Inl FileNotFoundError
           | Some content \<Rightarrow> Inr (files_now(dst \<mapsto> content)))"

text \<open>
  What one \<^verbatim>\<open>subprocess.run(..., timeout=...)\<close> of \<^verbatim>\<open>cargo\<close> does: it returns with an
  exit code, or raises \<^verbatim>\<open>TimeoutExpired\<close>, or raises another exception (the program
  cannot be started). The cargo runs are taken not to write the files of the model.
\<close>

datatype run_result = Returned int | TimeoutExpired | Raised

text \<open>
  The metadata dictionary of \<^verbatim>\<open>/tmp/test_generation_metadata.json\<close>, with the keys the
  Generator writes and the two keys the Validator adds.
\<close>

record metadata =
  original_file :: path
  generated_tests_path :: path
  coverage_before :: rat
  validation_success :: "bool option"
  validation_attempts :: "int option"

text \<open>
  The state the script works on: the files, the function attribute
  \<^verbatim>\<open>validate_tests.success\<close>, and the metadata file, which is kept apart from the other
  files (no source file lives at its path). \<open>calls\<close> is not a variable of the script:
  it counts the calls of \<^verbatim>\<open>validate_tests\<close>.
\<close>

record world =
  fsys :: filesystem
  success :: bool
  metadata_file :: "metadata option"
  calls :: nat

subsection \<open>\<^verbatim>\<open>validate_tests\<close>\<close>

text \<open>
  The \<^verbatim>\<open>try\<close> block with its two \<^verbatim>\<open>except\<close> clauses: every exception raised inside
  is caught and turned into \<^verbatim>\<open>return False\<close>. The value is the boolean to return and
  the files as the block leaves them.
\<close>

definition try_block ::
    "path \<Rightarrow> path \<Rightarrow> run_result \<Rightarrow> run_result \<Rightarrow> filesystem \<Rightarrow> bool \<times> filesystem" where
  "try_block test_file_path original_file_path check_result test_result files_now =
     (case copy2 test_file_path original_file_path files_now of
        Inl e \<Rightarrow> (False, files_now)
      | Inr staged \<Rightarrow>
          (case check_result of
             TimeoutExpired \<Rightarrow> (False, staged)
           | Raised \<Rightarrow> (False, staged)
           | Returned check_code \<Rightarrow>
               if check_code \<noteq> 0 then (False, staged)
               else
                 (case test_result of
                    TimeoutExpired \<Rightarrow> (False, staged)
                  | Raised \<Rightarrow> (False, staged)
                  | Returned test_code \<Rightarrow>
                      if test_code \<noteq> 0 then (False, staged) else (True, staged))))"

text \<open>
  The whole function; its parameter \<^verbatim>\<open>max_retries\<close> is never read and is left out.
  The backup is taken before the \<^verbatim>\<open>try\<close>, so an exception there
  leaves the function. The \<^verbatim>\<open>finally\<close> clause reads \<^verbatim>\<open>validate_tests.success\<close> as the
  caller left it; an exception raised by the restore replaces the return value and skips
  the removal of the backup.
\<close>

definition validate_tests ::
    "path \<Rightarrow> path \<Rightarrow> run_result \<Rightarrow> run_result \<Rightarrow> world \<Rightarrow> (error + bool) \<times> world" where
  "validate_tests test_file_path original_file_path check_result test_result w =
     (let w0 = w\<lparr>calls := Suc (calls w)\<rparr>;
          backup_path = original_file_path @ ''.backup''
      in case copy2 original_file_path backup_path (fsys w0) of
           Inl e \<Rightarrow> (Inl e, w0)
         | Inr backed_up \<Rightarrow>
             (case try_block test_file_path original_file_path check_result test_result
                     backed_up of
                (result, tried) \<Rightarrow>
                  (case (if \<not> success w0 then copy2 backup_path original_file_path tried
                         else Inr tried) of
                     Inl e \<Rightarrow> (Inl e, w0\<lparr>fsys := tried\<rparr>)
                   | Inr restored \<Rightarrow>
                       (Inr result,
                        w0\<lparr>fsys := (if restored backup_path \<noteq> None
                                      then restored(backup_path := None)
                                      else restored)\<rparr>))))"

subsection \<open>\<^verbatim>\<open>apply_tests\<close> and \<^verbatim>\<open>main\<close>\<close>

definition apply_tests :: "path \<Rightarrow> path \<Rightarrow> world \<Rightarrow> (error + unit) \<times> world" where
  "apply_tests test_file_path original_file_path w =
     (case copy2 test_file_path original_file_path (fsys w) of
        Inl e \<Rightarrow> (Inl e, w)
      | Inr applied \<Rightarrow> (Inr (), w\<lparr>fsys := applied\<rparr>))"

text \<open>
  The \<^verbatim>\<open>for attempt in range(1, 4)\<close> loop over the attempts still to make, and the
  statements after it. \<open>oracle attempt\<close> is what the two cargo runs of that attempt
  do. The value is how the process ends (\<^verbatim>\<open>sys.exit\<close> or an uncaught exception) and
  the state it leaves.
\<close>

fun main_loop ::
    "int list \<Rightarrow> (int \<Rightarrow> run_result \<times> run_result) \<Rightarrow> path \<Rightarrow> path \<Rightarrow> metadata \<Rightarrow> world
       \<Rightarrow> error \<times> world" where
  "main_loop [] oracle test_file_path original_file_path md w =
     (SystemExit 1,
      w\<lparr>metadata_file :=
           Some (md\<lparr>validation_success := Some False, validation_attempts := Some 3\<rparr>)\<rparr>)"
| "main_loop (attempt # rest) oracle test_file_path original_file_path md w =
     (case validate_tests test_file_path original_file_path
             (fst (oracle attempt)) (snd (oracle attempt)) w of
        (Inl e, w1) \<Rightarrow> (e, w1)
      | (Inr result, w1) \<Rightarrow>
          (let w2 = w1\<lparr>success := result\<rparr>
           in if success w2 then
                (case apply_tests test_file_path original_file_path w2 of
                   (Inl e, w3) \<Rightarrow> (e, w3)
                 | (Inr u, w3) \<Rightarrow>
                     (SystemExit 0,
                      w3\<lparr>metadata_file :=
                            Some (md\<lparr>validation_success := Some True,
                                      validation_attempts := Some attempt\<rparr>)\<rparr>))
              else main_loop rest oracle test_file_path original_file_path md w2))"

definition main :: "(int \<Rightarrow> run_result \<times> run_result) \<Rightarrow> world \<Rightarrow> error \<times> world" where
  "main oracle w =
     (case metadata_file w of
        None \<Rightarrow> (SystemExit 1, w)
      | Some md \<Rightarrow>
          main_loop [1, 2, 3] oracle (generated_tests_path md) (original_file md) md w)"

text \<open>
  Running the script: the module is loaded, which sets \<^verbatim>\<open>validate_tests.success = False\<close>
  (line 88), and \<^verbatim>\<open>main()\<close> is called.
\<close>

definition run_script ::
    "(int \<Rightarrow> run_result \<times> run_result) \<Rightarrow> filesystem \<Rightarrow> metadata option \<Rightarrow> error \<times> world" where
  "run_script oracle files_now md =
     main oracle \<lparr>fsys = files_now, success = False, metadata_file = md, calls = 0\<rparr>"

text \<open>The exit status of the process: an uncaught exception exits with status 1.\<close>

fun exit_code :: "error \<Rightarrow> int" where
  "exit_code (SystemExit n) = n"
| "exit_code e = 1"

section \<open>Notions used to state the properties\<close>

subsection \<open>Coverage entries that are kept\<close>

text \<open>
  \<open>selected\<close> is the filter both stages apply to an entry of the report, with the guard
  \<^verbatim>\<open>total > 0\<close>; \<open>stat_of\<close> is the tuple the Analyzer builds for an entry.
\<close>

definition selected :: "file_data \<Rightarrow> bool" where
  "selected fd =
     (let fname = get_filename fd in
      endswith fname ''.rs''
      \<and> \<not> (str_in ''target/'' fname \<or> str_in ''.cargo/'' fname)
      \<and> \<not> (str_in ''/tests/'' fname \<or> endswith fname ''_test.rs'')
      \<and> get_count (get_lines (get_summary fd)) > 0)"

definition stat_of :: "file_data \<Rightarrow> file_stat" where
  "stat_of fd =
     (let s = get_summary fd; l = get_lines s; c = get_covered l; t = get_count l
      in (get_filename fd, coverage_pct c t,
          \<lparr>st_covered = c, st_total = t, st_coverage = coverage_pct c t,
           st_regions = get_dict (sm_regions s),
           st_functions = get_dict (sm_functions s)\<rparr>))"

subsection \<open>Insertion points of the splice\<close>

text \<open>
  A line has the marker when it contains \<^verbatim>\<open>#[cfg(test)]\<close>. \<open>tracked_balance pre\<close> is the
  brace balance after the lines \<open>pre\<close> as the loop counts it: from the line after the first
  line with the marker, leaving out every line that has the marker. Line \<open>p\<close> is an
  insertion point when a line before it has the marker, it has none itself, the balance
  after it is zero and it contains a closing brace.
\<close>

definition has_marker :: "string \<Rightarrow> bool" where
  "has_marker line = str_in cfg_test line"

definition seen_marker :: "string list \<Rightarrow> bool" where
  "seen_marker pre = list_ex has_marker pre"

definition tracked_balance :: "string list \<Rightarrow> int" where
  "tracked_balance pre =
     sum_list (map net_braces
       (filter (\<lambda>l. \<not> has_marker l) (dropWhile (\<lambda>l. \<not> has_marker l) pre)))"

definition insertion_point :: "string list \<Rightarrow> nat \<Rightarrow> bool" where
  "insertion_point lines p =
     (p < length lines \<and> seen_marker (take p lines) \<and> \<not> has_marker (lines ! p)
      \<and> tracked_balance (take (Suc p) lines) = 0 \<and> str_in ''}'' (lines ! p))"

text \<open>
  The same two notions in the words of the specification, where the balance is tracked
  from the line with the marker itself: the braces of that line, and of every line after
  it, count.
\<close>

definition spec_balance :: "string list \<Rightarrow> int" where
  "spec_balance pre = sum_list (map net_braces (dropWhile (\<lambda>l. \<not> has_marker l) pre))"

definition spec_insertion_point :: "string list \<Rightarrow> nat \<Rightarrow> bool" where
  "spec_insertion_point lines p =
     (p < length lines \<and> seen_marker (take p lines)
      \<and> spec_balance (take (Suc p) lines) = 0 \<and> str_in ''}'' (lines ! p))"

subsection \<open>Occurrences of a substring\<close>

text \<open>
  \<open>sub\<close> occurs in \<open>s\<close> at index \<open>k\<close>; and it occurs there and at no smaller index.
\<close>

definition occurs_at :: "string \<Rightarrow> string \<Rightarrow> nat \<Rightarrow> bool" where
  "occurs_at sub s k = (k \<le> length s \<and> startswith sub (drop k s))"

definition first_occurrence :: "string \<Rightarrow> string \<Rightarrow> nat \<Rightarrow> bool" where
  "first_occurrence sub s k = (occurs_at sub s k \<and> (\<forall>j<k. \<not> occurs_at sub s j))"

subsection \<open>Attempts of the Validator\<close>

text \<open>
  Both cargo runs of an attempt return with exit code 0.
\<close>

definition attempt_passes :: "run_result \<times> run_result \<Rightarrow> bool" where
  "attempt_passes r = (fst r = Returned 0 \<and> snd r = Returned 0)"

section \<open>Example inputs\<close>

text \<open>
  A report with the line counts of Scenario A (\<^verbatim>\<open>a.rs\<close> 10/10, \<^verbatim>\<open>b.rs\<close> 2/10,
  \<^verbatim>\<open>c.rs\<close> 0/0), a report in which no entry is kept, and three statistics of which the
  last two tie at 20 percent.
\<close>

definition mk_file :: "string \<Rightarrow> int \<Rightarrow> int \<Rightarrow> file_data" where
  "mk_file name c t =
     \<lparr>filename = Some name,
      summary = Some \<lparr>sm_lines = Some \<lparr>covered = Some c, count = Some t\<rparr>,
                      sm_regions = None, sm_functions = None\<rparr>\<rparr>"

definition mk_report :: "file_data list \<Rightarrow> coverage_data" where
  "mk_report fs = \<lparr>data = Some [\<lparr>files = Some fs\<rparr>]\<rparr>"

definition mk_stat :: "string \<Rightarrow> int \<Rightarrow> int \<Rightarrow> file_stat" where
  "mk_stat name c t =
     (name, coverage_pct c t,
      \<lparr>st_covered = c, st_total = t, st_coverage = coverage_pct c t,
       st_regions = [], st_functions = []\<rparr>)"

definition scenario_A :: coverage_data where
  "scenario_A = mk_report [mk_file ''a.rs'' 10 10, mk_file ''b.rs'' 2 10, mk_file ''c.rs'' 0 0]"

definition only_uninstrumented :: coverage_data where
  "only_uninstrumented = mk_report [mk_file ''c.rs'' 0 0, mk_file ''target/x.rs'' 1 2]"

definition tied_stats :: "file_stat list" where
  "tied_stats = [mk_stat ''a.rs'' 10 10, mk_stat ''b.rs'' 2 10, mk_stat ''c.rs'' 1 5]"

text \<open>
  The response of Scenario B, and four source texts: a test module after its attribute
  line, two test modules opened on the attribute line (a test on one line, a test on
  three lines), and a test module that is never closed.
\<close>

definition scenario_B :: string where
  "scenario_B = ''Here:\<newline>```rust\<newline>TEST_CODE\<newline>```\<newline>Done.''"

definition module_on_own_line :: string where
  "module_on_own_line =
     ''fn f() {}\<newline>#[cfg(test)]\<newline>mod tests {\<newline>    fn a() {}\<newline>}\<newline>''"

definition module_on_marker_line :: string where
  "module_on_marker_line = ''#[cfg(test)] mod tests {\<newline>    fn a() {}\<newline>}''"

definition test_fn_after_marker_line :: string where
  "test_fn_after_marker_line =
     ''#[cfg(test)] mod tests {\<newline>    fn a() {\<newline>        assert!(true);\<newline>    }\<newline>}''"


text \<open>
  A source file and the candidate the Generator staged for it, the metadata the Generator
  wrote, and two behaviours of the compile check: failing at every attempt, and failing
  at the first two attempts only.
\<close>

definition demo_files :: filesystem where
  "demo_files = [''src/lib.rs'' \<mapsto> ''fn f() {}'',
                 ''/tmp/updated_file.rs'' \<mapsto> ''fn f() {} fn t() {}'']"

definition demo_metadata :: metadata where
  "demo_metadata =
     \<lparr>original_file = ''src/lib.rs'', generated_tests_path = ''/tmp/updated_file.rs'',
      coverage_before = 20, validation_success = None, validation_attempts = None\<rparr>"

definition demo_world :: world where
  "demo_world = \<lparr>fsys = demo_files, success = False, metadata_file = Some demo_metadata,
                  calls = 0\<rparr>"

definition check_always_fails :: "int \<Rightarrow> run_result \<times> run_result" where
  "check_always_fails attempt = (Returned 101, Returned 0)"

definition check_passes_third :: "int \<Rightarrow> run_result \<times> run_result" where
  "check_passes_third attempt =
     (if attempt = 3 then (Returned 0, Returned 0) else (Returned 101, Returned 0))"

section \<open>Properties of the Coverage Analyzer and the Report Generator\<close>

lemmas get_simps = get_filename_def get_summary_def get_lines_def get_covered_def
  get_count_def get_dict_def

text \<open>
  Both loops visit the entries of the report in order and keep those that are
  \<open>selected\<close>.
\<close>

lemma extract_loop_filter:
  "extract_loop fs acc = acc @ map stat_of (filter selected fs)"
  by (induction fs arbitrary: acc) (simp_all add: selected_def stat_of_def Let_def)

lemma overall_loop_filter:
  "overall_loop fs n t =
     (n + int (length (filter selected fs)),
      foldl (+) t (map (\<lambda>fd. fst (snd (stat_of fd))) (filter selected fs)))"
  by (induction fs arbitrary: n t) (simp_all add: selected_def stat_of_def Let_def)

lemma stat_of_props:
  "selected fd \<Longrightarrow> stat_of fd = (n, p, st) \<Longrightarrow>
     n = get_filename fd \<and> 0 < st_total st
     \<and> st_total st = get_count (get_lines (get_summary fd))
     \<and> st_covered st = get_covered (get_lines (get_summary fd))
     \<and> p = of_int (st_covered st) / of_int (st_total st) * 100
     \<and> st_coverage st = p"
  by (auto simp: selected_def stat_of_def Let_def coverage_pct_def)

lemma scenario_A_extract:
  "extract_file_coverage scenario_A = Inr [mk_stat ''a.rs'' 10 10, mk_stat ''b.rs'' 2 10]"
  by (simp add: scenario_A_def mk_report_def mk_file_def mk_stat_def extract_file_coverage_def
      report_files_def get_simps endswith_def)

text \<open>
  A report whose \<^verbatim>\<open>data\<close> array is empty has no entries to filter: both stages raise at
  \<^verbatim>\<open>[0]\<close>.
\<close>

lemma empty_data_array_raises:
  "data coverage_data = Some [] \<Longrightarrow>
     extract_file_coverage coverage_data = Inl IndexError
     \<and> calculate_overall_coverage coverage_data = Inl IndexError"
  by (simp add: extract_file_coverage_def calculate_overall_coverage_def report_files_def)

text \<open>
  The head of a list sorted by the stable insertion sort is the first of the elements
  with the least key.
\<close>

lemma hd_insort_key:
  "hd (insort_key f x ys) = (if ys = [] \<or> f x \<le> f (hd ys) then x else hd ys)"
  by (cases ys) auto

lemma sort_key_hd_first_min:
  "xs \<noteq> [] \<Longrightarrow>
     \<exists>i<length xs. hd (sort_key f xs) = xs ! i
        \<and> (\<forall>j<length xs. f (xs ! i) \<le> f (xs ! j))
        \<and> (\<forall>j<i. f (xs ! i) < f (xs ! j))"
proof (induction xs)
  case Nil
  then show ?case by simp
next
  case (Cons x xs)
  show ?case
  proof (cases "xs = []")
    case True
    then show ?thesis by simp
  next
    case False
    from Cons.IH [OF False] obtain i where i: "i < length xs"
      and h: "hd (sort_key f xs) = xs ! i"
      and le: "\<forall>j<length xs. f (xs ! i) \<le> f (xs ! j)"
      and lt: "\<forall>j<i. f (xs ! i) < f (xs ! j)" by blast
    have ne: "sort_key f xs \<noteq> []" using False by (metis length_sort length_0_conv)
    have hdeq: "hd (sort_key f (x # xs)) = (if f x \<le> f (xs ! i) then x else xs ! i)"
      using ne h by (simp add: hd_insort_key)
    show ?thesis
    proof (cases "f x \<le> f (xs ! i)")
      case True
      have "\<forall>j<length (x # xs). f ((x # xs) ! 0) \<le> f ((x # xs) ! j)"
      proof (intro allI impI)
        fix j assume "j < length (x # xs)"
        then show "f ((x # xs) ! 0) \<le> f ((x # xs) ! j)"
          using True le by (cases j) (auto intro: order_trans)
      qed
      with True hdeq show ?thesis by (intro exI [of _ 0]) simp
    next
      case F: False
      have a: "\<forall>j<length (x # xs). f ((x # xs) ! Suc i) \<le> f ((x # xs) ! j)"
      proof (intro allI impI)
        fix j assume "j < length (x # xs)"
        then show "f ((x # xs) ! Suc i) \<le> f ((x # xs) ! j)"
          using F le by (cases j) auto
      qed
      have b: "\<forall>j<Suc i. f ((x # xs) ! Suc i) < f ((x # xs) ! j)"
      proof (intro allI impI)
        fix j assume "j < Suc i"
        then show "f ((x # xs) ! Suc i) < f ((x # xs) ! j)"
          using F lt by (cases j) auto
      qed
      from F hdeq a b i show ?thesis by (intro exI [of _ "Suc i"]) simp
    qed
  qed
qed

lemma find_least_covered_file_returns:
  "file_stats \<noteq> [] \<Longrightarrow> \<exists>r. find_least_covered_file file_stats = Inr r"
proof -
  assume ne: "file_stats \<noteq> []"
  have "sort_key (\<lambda>x. fst (snd x)) file_stats \<noteq> []"
    using ne by (metis length_sort length_0_conv)
  then obtain y ys where "sort_key (\<lambda>x. fst (snd x)) file_stats = y # ys"
    by (cases "sort_key (\<lambda>x. fst (snd x)) file_stats") auto
  with ne show ?thesis
    by (simp add: find_least_covered_file_def split: prod.splits)
qed

text \<open>
  Claim C7. On the empty sequence \<^verbatim>\<open>find_least_covered_file\<close> ends the process with
  \<^verbatim>\<open>sys.exit(1)\<close>. On a non-empty sequence it returns the file name and the statistics of
  the entry at some index \<open>i\<close> whose percentage is the minimum of the sequence, and every
  entry before \<open>i\<close> has a strictly greater percentage: among entries that tie at the
  minimum it is the first.
\<close>

theorem find_least_covered_file_first_min:
  "find_least_covered_file [] = Inl (SystemExit 1) \<and>
   (file_stats \<noteq> [] \<longrightarrow>
     (\<exists>i<length file_stats.
        find_least_covered_file file_stats
          = Inr (fst (file_stats ! i), snd (snd (file_stats ! i)))
        \<and> (\<forall>j<length file_stats. fst (snd (file_stats ! i)) \<le> fst (snd (file_stats ! j)))
        \<and> (\<forall>j<i. fst (snd (file_stats ! i)) < fst (snd (file_stats ! j)))))"
proof (intro conjI impI)
  show "find_least_covered_file [] = Inl (SystemExit 1)"
    by (simp add: find_least_covered_file_def)
next
  assume ne: "file_stats \<noteq> []"
  let ?f = "\<lambda>x::file_stat. fst (snd x)"
  from sort_key_hd_first_min [OF ne, of ?f] obtain i where i: "i < length file_stats"
    and h: "hd (sort_key ?f file_stats) = file_stats ! i"
    and le: "\<forall>j<length file_stats. ?f (file_stats ! i) \<le> ?f (file_stats ! j)"
    and lt: "\<forall>j<i. ?f (file_stats ! i) < ?f (file_stats ! j)" by blast
  have sne: "sort_key ?f file_stats \<noteq> []" using ne by (metis length_sort length_0_conv)
  then obtain y ys where s: "sort_key ?f file_stats = y # ys" by (cases "sort_key ?f file_stats") auto
  with h have y: "y = file_stats ! i" by simp
  have "find_least_covered_file file_stats = Inr (fst (file_stats ! i), snd (snd (file_stats ! i)))"
    using ne s y by (simp add: find_least_covered_file_def split: prod.splits)
  with i le lt show "\<exists>i<length file_stats.
        find_least_covered_file file_stats
          = Inr (fst (file_stats ! i), snd (snd (file_stats ! i)))
        \<and> (\<forall>j<length file_stats. fst (snd (file_stats ! i)) \<le> fst (snd (file_stats ! j)))
        \<and> (\<forall>j<i. fst (snd (file_stats ! i)) < fst (snd (file_stats ! j)))" by blast
qed

theorem find_least_covered_file_first_min_witness:
  "tied_stats \<noteq> []
   \<and> find_least_covered_file tied_stats = Inr (''b.rs'', snd (snd (mk_stat ''b.rs'' 2 10)))
   \<and> (\<exists>i<length tied_stats.
        find_least_covered_file tied_stats
          = Inr (fst (tied_stats ! i), snd (snd (tied_stats ! i)))
        \<and> (\<forall>j<length tied_stats. fst (snd (tied_stats ! i)) \<le> fst (snd (tied_stats ! j)))
        \<and> (\<forall>j<i. fst (snd (tied_stats ! i)) < fst (snd (tied_stats ! j))))"
proof -
  have ne: "tied_stats \<noteq> []" by (simp add: tied_stats_def)
  have v: "find_least_covered_file tied_stats = Inr (''b.rs'', snd (snd (mk_stat ''b.rs'' 2 10)))"
    by (simp add: tied_stats_def mk_stat_def find_least_covered_file_def coverage_pct_def)
  from find_least_covered_file_first_min [of tied_stats] ne v show ?thesis by blast
qed

text \<open>
  Claim C8. Every entry of the output of \<^verbatim>\<open>extract_file_coverage\<close> has a total line
  count greater than zero, its percentage is \<open>covered / total * 100\<close>, also under the key
  \<^verbatim>\<open>coverage\<close> of its statistics, and it comes from an entry of the report with that
  file name and these two counts. So no entry with total 0 is in the output and the
  division is always guarded.
\<close>

theorem extract_file_coverage_total_positive:
  assumes "extract_file_coverage coverage_data = Inr file_stats"
    and "(fname, pct, st) \<in> set file_stats"
  shows "st_total st \<noteq> 0 \<and> 0 < st_total st
     \<and> pct = of_int (st_covered st) / of_int (st_total st) * 100
     \<and> st_coverage st = pct
     \<and> (\<exists>fs fd. report_files coverage_data = Inr fs \<and> fd \<in> set fs
           \<and> get_filename fd = fname
           \<and> get_count (get_lines (get_summary fd)) = st_total st
           \<and> get_covered (get_lines (get_summary fd)) = st_covered st)"
proof -
  from assms(1) obtain fs where fs: "report_files coverage_data = Inr fs"
    and out: "file_stats = extract_loop fs []"
    by (auto simp: extract_file_coverage_def split: sum.splits)
  from out assms(2) obtain fd where fd: "fd \<in> set fs" "selected fd"
    and eq: "stat_of fd = (fname, pct, st)"
    by (auto simp: extract_loop_filter)
  from stat_of_props [OF fd(2) eq] fs fd(1) show ?thesis by auto
qed

theorem extract_file_coverage_total_positive_witness:
  "extract_file_coverage scenario_A = Inr [mk_stat ''a.rs'' 10 10, mk_stat ''b.rs'' 2 10]
   \<and> mk_stat ''b.rs'' 2 10 \<in> set [mk_stat ''a.rs'' 10 10, mk_stat ''b.rs'' 2 10]
   \<and> st_total (snd (snd (mk_stat ''b.rs'' 2 10))) = 10
   \<and> fst (snd (mk_stat ''b.rs'' 2 10)) = 20
   \<and> (\<exists>fs fd. report_files scenario_A = Inr fs \<and> fd \<in> set fs
         \<and> get_filename fd = ''b.rs''
         \<and> get_count (get_lines (get_summary fd)) = 10)"
  using extract_file_coverage_total_positive
    [of scenario_A "[mk_stat ''a.rs'' 10 10, mk_stat ''b.rs'' 2 10]" "''b.rs''"
        "coverage_pct 2 10" "snd (snd (mk_stat ''b.rs'' 2 10))"]
    scenario_A_extract
  by (auto simp: mk_stat_def coverage_pct_def)

text \<open>
  Both stages count the same files: \<^verbatim>\<open>total_files\<close> is the length of the Analyzer's
  sequence in both records. The two averages are sums of floats taken by different
  procedures, the builtin \<^verbatim>\<open>sum\<close> and a running total, and are not compared here.
\<close>

lemma both_stages_count_the_same_files:
  assumes "extract_file_coverage coverage_data = Inr file_stats"
    and "file_stats \<noteq> []"
  shows "\<exists>sel ov ov'. analyze_main builtin_sum coverage_data = Inr (sel, ov)
     \<and> calculate_overall_coverage coverage_data = Inr ov'
     \<and> total_files ov = int (length file_stats)
     \<and> total_files ov' = int (length file_stats)"
proof -
  from assms(1) obtain fs where fs: "report_files coverage_data = Inr fs"
    and out: "file_stats = map stat_of (filter selected fs)"
    by (auto simp: extract_file_coverage_def extract_loop_filter split: sum.splits)
  from find_least_covered_file_returns [OF assms(2)] obtain f st
    where least: "find_least_covered_file file_stats = Inr (f, st)" by force
  have a: "\<exists>sel ov. analyze_main builtin_sum coverage_data = Inr (sel, ov)
      \<and> total_files ov = int (length file_stats)"
    using assms least by (simp add: analyze_main_def)
  have pos: "0 < int (length (filter selected fs))" using assms(2) out by simp
  have c: "\<exists>ov'. calculate_overall_coverage coverage_data = Inr ov'
      \<and> total_files ov' = int (length file_stats)"
    using fs pos by (simp add: calculate_overall_coverage_def overall_loop_filter out)
  from a c show ?thesis by blast
qed

text \<open>
  Claim C10. When the filtered sequence of a report is empty, that is when
  \<^verbatim>\<open>extract_file_coverage\<close> returns the empty list, \<^verbatim>\<open>calculate_overall_coverage\<close> returns
  \<^verbatim>\<open>{"total_files": 0, "average_coverage": 0.0}\<close> without raising, while the Analyzer's
  \<^verbatim>\<open>main\<close> ends the process with \<^verbatim>\<open>sys.exit(1)\<close>.
\<close>

theorem report_overall_empty_total:
  assumes "extract_file_coverage coverage_data = Inr []"
  shows "calculate_overall_coverage coverage_data
           = Inr \<lparr>total_files = 0, average_coverage = 0\<rparr>
     \<and> analyze_main builtin_sum coverage_data = Inl (SystemExit 1)"
proof -
  from assms obtain fs where fs: "report_files coverage_data = Inr fs"
    and out: "filter selected fs = []"
    by (auto simp: extract_file_coverage_def extract_loop_filter split: sum.splits)
  have "calculate_overall_coverage coverage_data = Inr \<lparr>total_files = 0, average_coverage = 0\<rparr>"
    using fs out by (simp add: calculate_overall_coverage_def overall_loop_filter)
  moreover have "analyze_main builtin_sum coverage_data = Inl (SystemExit 1)"
    using assms by (simp add: analyze_main_def)
  ultimately show ?thesis by simp
qed

theorem report_overall_empty_total_witness:
  "extract_file_coverage only_uninstrumented = Inr []
   \<and> calculate_overall_coverage only_uninstrumented
       = Inr \<lparr>total_files = 0, average_coverage = 0\<rparr>
   \<and> analyze_main sum_list only_uninstrumented = Inl (SystemExit 1)"
proof -
  have h: "extract_file_coverage only_uninstrumented = Inr []"
    by (simp add: only_uninstrumented_def mk_report_def mk_file_def extract_file_coverage_def
        report_files_def get_simps endswith_def)
  show ?thesis using h report_overall_empty_total [OF h, of sum_list] by simp
qed

section \<open>Properties of the Test Generator\<close>

subsection \<open>The scan for the insertion point\<close>

lemma tracked_balance_unseen: "\<not> seen_marker pre \<Longrightarrow> tracked_balance pre = 0"
proof -
  assume "\<not> seen_marker pre"
  then have e: "dropWhile (\<lambda>l. \<not> has_marker l) pre = []"
    by (simp add: dropWhile_eq_Nil_conv seen_marker_def list_ex_iff)
  show ?thesis unfolding tracked_balance_def e by simp
qed

lemma tracked_balance_snoc:
  "tracked_balance (pre @ [l]) =
     (if has_marker l then tracked_balance pre
      else if seen_marker pre then tracked_balance pre + net_braces l
      else 0)"
proof (cases "seen_marker pre")
  case True
  then obtain x where "x \<in> set pre" "\<not> \<not> has_marker x"
    by (auto simp: seen_marker_def list_ex_iff)
  then have "dropWhile (\<lambda>l. \<not> has_marker l) (pre @ [l]) = dropWhile (\<lambda>l. \<not> has_marker l) pre @ [l]"
    by (rule dropWhile_append1)
  with True show ?thesis by (simp add: tracked_balance_def)
next
  case False
  then have all: "\<forall>x\<in>set pre. \<not> has_marker x" by (simp add: seen_marker_def list_ex_iff)
  then have a: "dropWhile (\<lambda>l. \<not> has_marker l) (pre @ [l]) = dropWhile (\<lambda>l. \<not> has_marker l) [l]"
    by simp
  have c: "tracked_balance pre = 0" using False by (rule tracked_balance_unseen)
  have d: "tracked_balance (pre @ [l]) = 0" by (simp add: tracked_balance_def a)
  show ?thesis using False c d by simp
qed

lemma seen_marker_snoc: "seen_marker (pre @ [l]) = (seen_marker pre \<or> has_marker l)"
  by (auto simp: seen_marker_def list_ex_iff)

lemma insertion_point_at_end_of_prefix:
  "insertion_point (pre @ line # rest) (length pre) =
     (seen_marker pre \<and> \<not> has_marker line
      \<and> tracked_balance (pre @ [line]) = 0 \<and> str_in ''}'' line)"
  by (simp add: insertion_point_def)

text \<open>
  The invariant of the loop: after the lines \<open>pre\<close>, none of which is an insertion point,
  \<^verbatim>\<open>in_test_module\<close> says whether a marker was seen and \<^verbatim>\<open>brace_count\<close> is the tracked
  balance. The loop then ends at the first insertion point, or with \<open>-1\<close> when there is
  none.
\<close>

lemma scan_lines_least:
  assumes "\<forall>q<length pre. \<not> insertion_point (pre @ rest) q"
    and "seen_marker pre \<or> bc = 0"
    and "seen_marker pre \<longrightarrow> bc = tracked_balance pre"
  shows "(scan_lines rest (length pre) (seen_marker pre) start bc = - 1
            \<and> (\<forall>q<length (pre @ rest). \<not> insertion_point (pre @ rest) q))
         \<or> (\<exists>p. scan_lines rest (length pre) (seen_marker pre) start bc = int p
               \<and> insertion_point (pre @ rest) p
               \<and> (\<forall>q<p. \<not> insertion_point (pre @ rest) q))"
  using assms
proof (induction rest arbitrary: pre start bc)
  case Nil
  then show ?case by simp
next
  case (Cons line rest)
  have here: "insertion_point (pre @ line # rest) (length pre) =
     (seen_marker pre \<and> \<not> has_marker line
      \<and> tracked_balance (pre @ [line]) = 0 \<and> str_in ''}'' line)"
    by (rule insertion_point_at_end_of_prefix)
  show ?case
  proof (cases "insertion_point (pre @ line # rest) (length pre)")
    case True
    with here have s: "seen_marker pre" and nm: "\<not> str_in cfg_test line"
      and z: "tracked_balance (pre @ [line]) = 0" and cb: "str_in ''}'' line"
      by (simp_all add: has_marker_def)
    from z s nm have "tracked_balance pre + net_braces line = 0"
      by (simp add: tracked_balance_snoc has_marker_def)
    with s Cons.prems(3) have "bc + net_braces line = 0" by simp
    with s nm cb
    have "scan_lines (line # rest) (length pre) (seen_marker pre) start bc = int (length pre)"
      by (simp add: Let_def)
    with True Cons.prems(1) show ?thesis by blast
  next
    case False
    have none: "\<forall>q<length (pre @ [line]). \<not> insertion_point ((pre @ [line]) @ rest) q"
    proof (intro allI impI)
      fix q assume "q < length (pre @ [line])"
      then have "q < length pre \<or> q = length pre" by auto
      then show "\<not> insertion_point ((pre @ [line]) @ rest) q"
        using Cons.prems(1) False by auto
    qed
    let ?bc = "if has_marker line then bc else if seen_marker pre then bc + net_braces line else bc"
    have step: "scan_lines (line # rest) (length pre) (seen_marker pre) start bc
        = scan_lines rest (length (pre @ [line])) (seen_marker (pre @ [line]))
            (if has_marker line then int (length pre) else start) ?bc"
      using False here Cons.prems(3)
      by (auto simp: tracked_balance_snoc has_marker_def seen_marker_snoc Let_def)
    have p2: "seen_marker (pre @ [line]) \<or> ?bc = 0"
      using Cons.prems(2) by (auto simp: seen_marker_snoc)
    have p3: "seen_marker (pre @ [line]) \<longrightarrow> ?bc = tracked_balance (pre @ [line])"
      using Cons.prems(2,3)
      by (auto simp: seen_marker_snoc tracked_balance_snoc tracked_balance_unseen)
    from Cons.IH [OF none p2 p3, of "if has_marker line then int (length pre) else start"] step
    show ?thesis by simp
  qed
qed

lemma scan_lines_from_start:
  "(scan_lines lines 0 False start 0 = - 1
      \<and> (\<forall>q<length lines. \<not> insertion_point lines q))
   \<or> (\<exists>p. scan_lines lines 0 False start 0 = int p
         \<and> insertion_point lines p \<and> (\<forall>q<p. \<not> insertion_point lines q))"
  using scan_lines_least [of "[]" lines 0 start] by (simp add: seen_marker_def)


lemma scan_lines_first:
  assumes "insertion_point lines p" and "\<forall>q<p. \<not> insertion_point lines q"
  shows "scan_lines lines 0 False start 0 = int p"
proof -
  from assms(1) have plt: "p < length lines" by (simp add: insertion_point_def)
  from scan_lines_from_start [of lines start] assms(1) plt
  obtain p' where p': "scan_lines lines 0 False start 0 = int p'"
      "insertion_point lines p'" "\<forall>q<p'. \<not> insertion_point lines q"
    by blast
  have "p' = p"
  proof (rule ccontr)
    assume "p' \<noteq> p"
    then have "p' < p \<or> p < p'" by auto
    with assms p' show False by blast
  qed
  with p' show ?thesis by simp
qed

lemma insertion_point_positive: "insertion_point lines p \<Longrightarrow> 0 < p"
  by (cases p) (auto simp: insertion_point_def seen_marker_def)

lemma list_insert_twice:
  "p \<le> length xs \<Longrightarrow>
     list_insert (list_insert xs (int p) g) (int p) b = take p xs @ [b, g] @ drop p xs"
  by (simp add: list_insert_def Let_def min_def)

lemmas splice_eval = has_marker_def seen_marker_def tracked_balance_def insertion_point_def
  spec_balance_def spec_insertion_point_def cfg_test_def net_braces_def

lemma module_on_own_line_lines:
  "split_nl module_on_own_line =
     [''fn f() {}'', ''#[cfg(test)]'', ''mod tests {'', ''    fn a() {}'', ''}'', []]"
  by (simp add: module_on_own_line_def)





text \<open>
  What the function does when a line is an insertion point. When the original text
  contains the marker and \<open>p\<close> is the first insertion point of its lines, the balance
  being tracked from the line after the first line with the marker and no line with the
  marker being counted, the result is the lines of the original with an empty line and
  then the generated code inserted before line \<open>p\<close>, joined by newlines.
\<close>

theorem integrate_inserts_before_first_insertion_point:
  assumes "str_in cfg_test original_content"
    and "insertion_point (split_nl original_content) p"
    and "\<forall>q<p. \<not> insertion_point (split_nl original_content) q"
  shows "0 < p \<and> integrate_tests_into_file original_content generated_tests =
     join_nl (take p (split_nl original_content) @ [[], generated_tests]
              @ drop p (split_nl original_content))"
proof -
  let ?lines = "split_nl original_content"
  have pos: "0 < p" using assms(2) by (rule insertion_point_positive)
  have le: "p \<le> length ?lines" using assms(2) by (simp add: insertion_point_def)
  have "scan_lines ?lines 0 False (- 1) 0 = int p"
    using assms(2,3) by (rule scan_lines_first)
  with assms(1) pos le show ?thesis
    by (simp add: integrate_tests_into_file_def Let_def list_insert_twice)
qed

theorem integrate_inserts_before_first_insertion_point_witness:
  "str_in cfg_test module_on_own_line
   \<and> insertion_point (split_nl module_on_own_line) 4
   \<and> \<not> insertion_point (split_nl module_on_own_line) 0
   \<and> \<not> insertion_point (split_nl module_on_own_line) 1
   \<and> \<not> insertion_point (split_nl module_on_own_line) 2
   \<and> \<not> insertion_point (split_nl module_on_own_line) 3
   \<and> integrate_tests_into_file module_on_own_line ''fn b() {}'' =
       ''fn f() {}\<newline>#[cfg(test)]\<newline>mod tests {\<newline>    fn a() {}\<newline>\<newline>fn b() {}\<newline>}\<newline>''"
proof -
  have a: "str_in cfg_test module_on_own_line"
    by (simp add: module_on_own_line_def cfg_test_def)
  have b: "insertion_point (split_nl module_on_own_line) 4"
    by (simp add: module_on_own_line_lines splice_eval)
  have c: "\<forall>q<4. \<not> insertion_point (split_nl module_on_own_line) q"
    by (simp add: module_on_own_line_lines splice_eval eval_nat_numeral All_less_Suc)
  from integrate_inserts_before_first_insertion_point [OF a b c, of "''fn b() {}''"]
  have "integrate_tests_into_file module_on_own_line ''fn b() {}'' =
       ''fn f() {}\<newline>#[cfg(test)]\<newline>mod tests {\<newline>    fn a() {}\<newline>\<newline>fn b() {}\<newline>}\<newline>''"
    by (simp add: module_on_own_line_lines)
  moreover have "\<not> insertion_point (split_nl module_on_own_line) 0"
    "\<not> insertion_point (split_nl module_on_own_line) 1"
    "\<not> insertion_point (split_nl module_on_own_line) 2"
    "\<not> insertion_point (split_nl module_on_own_line) 3" using c by simp_all
  ultimately show ?thesis using a b by blast
qed

text \<open>
  When no line with the marker carries a brace, counting from the line with the marker
  and counting from the line after it give the same insertion points, and the generated
  code is inserted before the line that closes the test module.
\<close>

lemma sum_list_skip_zero:
  "\<forall>l\<in>set xs. P l \<longrightarrow> f l = (0::int) \<Longrightarrow>
     sum_list (map f xs) = sum_list (map f (filter (\<lambda>l. \<not> P l) xs))"
  by (induction xs) simp_all

lemma balances_agree:
  assumes "\<forall>l\<in>set pre. has_marker l \<longrightarrow> net_braces l = 0"
  shows "spec_balance pre = tracked_balance pre"
proof -
  have "\<forall>l\<in>set (dropWhile (\<lambda>l. \<not> has_marker l) pre). has_marker l \<longrightarrow> net_braces l = 0"
    using assms by (auto dest: set_dropWhileD)
  from sum_list_skip_zero [OF this] show ?thesis
    by (simp add: spec_balance_def tracked_balance_def)
qed

lemma insertion_points_agree:
  assumes "\<forall>l\<in>set lines. has_marker l \<longrightarrow> net_braces l = 0 \<and> \<not> str_in ''}'' l"
  shows "insertion_point lines p = spec_insertion_point lines p"
proof (cases "p < length lines")
  case False
  then show ?thesis by (simp add: insertion_point_def spec_insertion_point_def)
next
  case True
  have "\<forall>l\<in>set (take (Suc p) lines). has_marker l \<longrightarrow> net_braces l = 0"
    using assms by (auto dest: in_set_takeD)
  then have b: "spec_balance (take (Suc p) lines) = tracked_balance (take (Suc p) lines)"
    by (rule balances_agree)
  have "lines ! p \<in> set lines" using True by simp
  with assms have "str_in ''}'' (lines ! p) \<longrightarrow> \<not> has_marker (lines ! p)" by blast
  with b show ?thesis by (auto simp: insertion_point_def spec_insertion_point_def)
qed

lemma integrate_at_closing_brace_when_marker_lines_have_no_brace:
  assumes "str_in cfg_test original_content"
    and "\<forall>l\<in>set (split_nl original_content).
           has_marker l \<longrightarrow> net_braces l = 0 \<and> \<not> str_in ''}'' l"
    and "spec_insertion_point (split_nl original_content) p"
    and "\<forall>q<p. \<not> spec_insertion_point (split_nl original_content) q"
  shows "integrate_tests_into_file original_content generated_tests =
     join_nl (take p (split_nl original_content) @ [[], generated_tests]
              @ drop p (split_nl original_content))"
proof -
  let ?lines = "split_nl original_content"
  have eq: "\<And>q. insertion_point ?lines q = spec_insertion_point ?lines q"
    using assms(2) by (rule insertion_points_agree)
  have a: "insertion_point ?lines p" using assms(3) eq by simp
  have b: "\<forall>q<p. \<not> insertion_point ?lines q" using assms(4) eq by simp
  from scan_lines_first [OF a b, of "- 1"] insertion_point_positive [OF a] a assms(1)
  show ?thesis
    by (simp add: integrate_tests_into_file_def Let_def list_insert_twice insertion_point_def)
qed

lemma test_fn_after_marker_line_lines:
  "split_nl test_fn_after_marker_line =
     [''#[cfg(test)] mod tests {'', ''    fn a() {'', ''        assert!(true);'', ''    }'', ''}'']"
  by (simp add: test_fn_after_marker_line_def)

text \<open>
  Claim C5. The claim, with the comments of the function (find the last closing brace of
  the test module, insert before the closing brace), puts the generated code before the
  first line after the marker at which the balance, tracked from the line with the marker
  itself, returns to zero. The code skips the line with the marker without counting its
  braces. For a test module opened on that line, \<^verbatim>\<open>#[cfg(test)] mod tests {\<close>, with a test
  of three lines, the claim's insertion point is line 4, the closing brace of the module;
  the code inserts before line 3, inside the body of the test function. With a test of
  one line the claim's insertion point is line 2 and the code inserts before line 1.
\<close>

theorem integrate_marker_line_brace_not_counted:
  "str_in cfg_test test_fn_after_marker_line
   \<and> split_nl test_fn_after_marker_line =
       [''#[cfg(test)] mod tests {'', ''    fn a() {'', ''        assert!(true);'', ''    }'', ''}'']
   \<and> spec_insertion_point (split_nl test_fn_after_marker_line) 4
   \<and> \<not> spec_insertion_point (split_nl test_fn_after_marker_line) 0
   \<and> \<not> spec_insertion_point (split_nl test_fn_after_marker_line) 1
   \<and> \<not> spec_insertion_point (split_nl test_fn_after_marker_line) 2
   \<and> \<not> spec_insertion_point (split_nl test_fn_after_marker_line) 3
   \<and> join_nl (take 4 (split_nl test_fn_after_marker_line) @ [[], ''fn b() {}'']
                @ drop 4 (split_nl test_fn_after_marker_line)) =
       ''#[cfg(test)] mod tests {\<newline>    fn a() {\<newline>        assert!(true);\<newline>    }\<newline>\<newline>fn b() {}\<newline>}''
   \<and> integrate_tests_into_file test_fn_after_marker_line ''fn b() {}'' =
       ''#[cfg(test)] mod tests {\<newline>    fn a() {\<newline>        assert!(true);\<newline>\<newline>fn b() {}\<newline>    }\<newline>}''
   \<and> split_nl module_on_marker_line = [''#[cfg(test)] mod tests {'', ''    fn a() {}'', ''}'']
   \<and> spec_insertion_point (split_nl module_on_marker_line) 2
   \<and> \<not> spec_insertion_point (split_nl module_on_marker_line) 0
   \<and> \<not> spec_insertion_point (split_nl module_on_marker_line) 1
   \<and> integrate_tests_into_file module_on_marker_line ''fn b() {}'' =
       ''#[cfg(test)] mod tests {\<newline>\<newline>fn b() {}\<newline>    fn a() {}\<newline>}''"
proof -
  note l = test_fn_after_marker_line_lines
  have a: "str_in cfg_test test_fn_after_marker_line"
    by (simp add: test_fn_after_marker_line_def cfg_test_def)
  have b: "spec_insertion_point (split_nl test_fn_after_marker_line) 4"
    by (simp add: l splice_eval)
  have c: "\<not> spec_insertion_point (split_nl test_fn_after_marker_line) 0"
    "\<not> spec_insertion_point (split_nl test_fn_after_marker_line) 1"
    "\<not> spec_insertion_point (split_nl test_fn_after_marker_line) 2"
    "\<not> spec_insertion_point (split_nl test_fn_after_marker_line) 3"
    by (simp_all add: l splice_eval)
  have d: "join_nl (take 4 (split_nl test_fn_after_marker_line) @ [[], ''fn b() {}'']
                @ drop 4 (split_nl test_fn_after_marker_line)) =
       ''#[cfg(test)] mod tests {\<newline>    fn a() {\<newline>        assert!(true);\<newline>    }\<newline>\<newline>fn b() {}\<newline>}''"
    by (simp add: l)
  have e: "integrate_tests_into_file test_fn_after_marker_line ''fn b() {}'' =
       ''#[cfg(test)] mod tests {\<newline>    fn a() {\<newline>        assert!(true);\<newline>\<newline>fn b() {}\<newline>    }\<newline>}''"
    using a by (simp add: integrate_tests_into_file_def l cfg_test_def net_braces_def
        list_insert_def Let_def)
  have l2: "split_nl module_on_marker_line = [''#[cfg(test)] mod tests {'', ''    fn a() {}'', ''}'']"
    by (simp add: module_on_marker_line_def)
  have a2: "str_in cfg_test module_on_marker_line"
    by (simp add: module_on_marker_line_def cfg_test_def)
  have b2: "spec_insertion_point (split_nl module_on_marker_line) 2"
    by (simp add: l2 splice_eval)
  have c2: "\<not> spec_insertion_point (split_nl module_on_marker_line) 0"
    "\<not> spec_insertion_point (split_nl module_on_marker_line) 1"
    by (simp_all add: l2 splice_eval)
  have e2: "integrate_tests_into_file module_on_marker_line ''fn b() {}'' =
       ''#[cfg(test)] mod tests {\<newline>\<newline>fn b() {}\<newline>    fn a() {}\<newline>}''"
    using a2 by (simp add: integrate_tests_into_file_def l2 cfg_test_def net_braces_def
        list_insert_def Let_def)
  from a l b c d e l2 b2 c2 e2 show ?thesis by blast
qed

subsection \<open>Code extraction\<close>

lemma startswith_append: "startswith p (p @ s)"
  by (induction p) simp_all

lemma startswith_Nil: "startswith sub [] = (sub = [])"
  by (cases sub) simp_all

lemma find_aux_first:
  "first_occurrence sub s n \<Longrightarrow> find_aux sub s i = int (i + n)"
proof (induction s arbitrary: i n)
  case Nil
  then show ?case by (simp add: first_occurrence_def occurs_at_def startswith_Nil)
next
  case (Cons c cs)
  show ?case
  proof (cases n)
    case 0
    with Cons.prems show ?thesis by (simp add: first_occurrence_def occurs_at_def)
  next
    case (Suc m)
    from Cons.prems Suc have no: "\<not> startswith sub (c # cs)"
      by (auto simp: first_occurrence_def occurs_at_def)
    have "first_occurrence sub cs m"
      unfolding first_occurrence_def occurs_at_def
    proof (intro conjI allI impI)
      show "m \<le> length cs" using Cons.prems Suc by (simp add: first_occurrence_def occurs_at_def)
      show "startswith sub (drop m cs)"
        using Cons.prems Suc by (simp add: first_occurrence_def occurs_at_def)
      fix j assume "j < m"
      then have "\<not> occurs_at sub (c # cs) (Suc j)"
        using Cons.prems Suc by (simp add: first_occurrence_def)
      then show "\<not> (j \<le> length cs \<and> startswith sub (drop j cs))"
        by (simp add: occurs_at_def)
    qed
    from Cons.IH [OF this, of "Suc i"] no Suc show ?thesis by simp
  qed
qed

lemma find_aux_absent: "\<not> str_in sub s \<Longrightarrow> find_aux sub s i = - 1"
  by (induction s arbitrary: i) auto

lemma str_in_occurs: "occurs_at sub s k \<Longrightarrow> str_in sub s"
proof (induction s arbitrary: k)
  case Nil
  then show ?case by (simp add: occurs_at_def startswith_Nil)
next
  case (Cons c cs)
  then show ?case by (cases k) (auto simp: occurs_at_def)
qed

lemma occurs_at_append: "occurs_at sub (pre @ sub @ rest) (length pre)"
  by (simp add: occurs_at_def startswith_append)

lemma py_find_first:
  assumes "first_occurrence sub (drop a s) n" and "a \<le> length s"
  shows "py_find s sub (int a) = int (a + n)"
  using assms find_aux_first [OF assms(1), of a]
  by (simp add: py_find_def clamp_index_def)

lemma py_find_absent:
  assumes "\<not> str_in sub (drop a s)" and "a \<le> length s"
  shows "py_find s sub (int a) = - 1"
  using assms by (simp add: py_find_def clamp_index_def find_aux_absent)

lemma py_slice_middle:
  "py_slice (pre @ body @ post) (int (length pre)) (int (length pre + length body)) = body"
  by (simp add: py_slice_def clamp_index_def)

lemma length_rust_fence: "length rust_fence = 7"
  by (simp add: rust_fence_def)

text \<open>
  Claim C6, as the code has it. A response without the fence \<^verbatim>\<open>```rust\<close> is returned
  unchanged. When the first such fence is followed by \<open>body\<close> and then by the next fence
  \<^verbatim>\<open>```\<close>, the result is \<open>body\<close> with the white space at both ends stripped, unless
  \<open>body\<close> is empty, when the response is returned unchanged. When no fence follows the
  first \<^verbatim>\<open>```rust\<close>, the response is returned unchanged.
\<close>

theorem extract_code_cases:
  "(\<not> str_in rust_fence content \<longrightarrow> extract_code content = content)
   \<and> (content = pre @ rust_fence @ body @ fence @ post
        \<and> first_occurrence rust_fence content (length pre)
        \<and> first_occurrence fence (body @ fence @ post) (length body)
      \<longrightarrow> extract_code content = (if body = [] then content else strip body))
   \<and> (content = pre @ rust_fence @ rest
        \<and> first_occurrence rust_fence content (length pre)
        \<and> \<not> str_in fence rest
      \<longrightarrow> extract_code content = content)"
proof (intro conjI impI)
  assume "\<not> str_in rust_fence content"
  then show "extract_code content = content" by (simp add: extract_code_def)
next
  assume h: "content = pre @ rust_fence @ body @ fence @ post
        \<and> first_occurrence rust_fence content (length pre)
        \<and> first_occurrence fence (body @ fence @ post) (length body)"
  then have c: "content = pre @ rust_fence @ body @ fence @ post"
    and f1: "first_occurrence rust_fence content (length pre)"
    and f2: "first_occurrence fence (body @ fence @ post) (length body)" by blast+
  have isin: "str_in rust_fence content"
    using f1 by (auto simp: first_occurrence_def intro: str_in_occurs)
  have s: "py_find content rust_fence 0 = int (length pre)"
    using py_find_first [of rust_fence 0 content "length pre"] f1 by simp
  let ?start = "length pre + 7"
  have d: "drop ?start content = body @ fence @ post"
    by (simp add: c length_rust_fence)
  have le: "?start \<le> length content" by (simp add: c length_rust_fence)
  have e: "py_find content fence (int ?start) = int (?start + length body)"
    using py_find_first [of fence ?start content "length body"] f2 d le by simp
  have sl: "py_slice content (int ?start) (int (?start + length body)) = body"
    using py_slice_middle [of "pre @ rust_fence" body "fence @ post"]
    by (simp add: c length_rust_fence)
  have "extract_code content =
      (if int (?start + length body) > int ?start
       then strip (py_slice content (int ?start) (int (?start + length body))) else content)"
    using isin s e by (simp add: extract_code_def Let_def)
  with sl show "extract_code content = (if body = [] then content else strip body)"
    by simp
next
  assume h: "content = pre @ rust_fence @ rest
        \<and> first_occurrence rust_fence content (length pre)
        \<and> \<not> str_in fence rest"
  then have c: "content = pre @ rust_fence @ rest"
    and f1: "first_occurrence rust_fence content (length pre)"
    and no: "\<not> str_in fence rest" by blast+
  have isin: "str_in rust_fence content"
    using f1 by (auto simp: first_occurrence_def intro: str_in_occurs)
  have s: "py_find content rust_fence 0 = int (length pre)"
    using py_find_first [of rust_fence 0 content "length pre"] f1 by simp
  let ?start = "length pre + 7"
  have d: "drop ?start content = rest" by (simp add: c length_rust_fence)
  have le: "?start \<le> length content" by (simp add: c length_rust_fence)
  have e: "py_find content fence (int ?start) = - 1"
    using py_find_absent [of fence ?start content] no d le by simp
  show "extract_code content = content"
    using isin s e by (simp add: extract_code_def Let_def)
qed

theorem extract_code_cases_witness:
  "scenario_B = ''Here:\<newline>'' @ rust_fence @ ''\<newline>TEST_CODE\<newline>'' @ fence @ ''\<newline>Done.''
   \<and> first_occurrence rust_fence scenario_B (length ''Here:\<newline>'')
   \<and> first_occurrence fence (''\<newline>TEST_CODE\<newline>'' @ fence @ ''\<newline>Done.'')
        (length ''\<newline>TEST_CODE\<newline>'')
   \<and> extract_code scenario_B = ''TEST_CODE''
   \<and> \<not> str_in rust_fence ''fn t() {}'' \<and> extract_code ''fn t() {}'' = ''fn t() {}''
   \<and> \<not> str_in fence '' fn t() {}''
   \<and> extract_code (rust_fence @ '' fn t() {}'') = rust_fence @ '' fn t() {}''"
proof -
  have a: "scenario_B = ''Here:\<newline>'' @ rust_fence @ ''\<newline>TEST_CODE\<newline>'' @ fence @ ''\<newline>Done.''"
    by (simp add: scenario_B_def rust_fence_def fence_def)
  have b: "first_occurrence rust_fence scenario_B (length ''Here:\<newline>'')"
    by (simp add: scenario_B_def rust_fence_def first_occurrence_def occurs_at_def
        eval_nat_numeral All_less_Suc)
  have c: "first_occurrence fence (''\<newline>TEST_CODE\<newline>'' @ fence @ ''\<newline>Done.'')
        (length ''\<newline>TEST_CODE\<newline>'')"
    by (simp add: fence_def first_occurrence_def occurs_at_def eval_nat_numeral All_less_Suc)
  have d: "strip ''\<newline>TEST_CODE\<newline>'' = ''TEST_CODE''"
    by (simp add: strip_def is_space_def)
  have e: "\<not> str_in rust_fence ''fn t() {}''" by (simp add: rust_fence_def)
  have f: "\<not> str_in fence '' fn t() {}''" by (simp add: fence_def)
  have g: "first_occurrence rust_fence (rust_fence @ '' fn t() {}'') (length ([] :: string))"
    by (simp add: rust_fence_def first_occurrence_def occurs_at_def)
  from extract_code_cases [of scenario_B "''Here:\<newline>''" "''\<newline>TEST_CODE\<newline>''" "''\<newline>Done.''" "[]"] a b c d
  have 1: "extract_code scenario_B = ''TEST_CODE''" by simp
  from extract_code_cases [of "''fn t() {}''" "[]" "[]" "[]" "[]"] e
  have 2: "extract_code ''fn t() {}'' = ''fn t() {}''" by simp
  from extract_code_cases [of "rust_fence @ '' fn t() {}''" "[]" "[]" "[]" "'' fn t() {}''"] f g
  have 3: "extract_code (rust_fence @ '' fn t() {}'') = rust_fence @ '' fn t() {}''" by simp
  from a b c 1 e 2 f 3 show ?thesis by blast
qed

text \<open>
  Claim C6 as stated fails: for the response of Scenario B the text between the fences
  is \<^verbatim>\<open>TEST_CODE\<close> between two newlines and the result is \<^verbatim>\<open>TEST_CODE\<close> alone; and a
  response with a \<^verbatim>\<open>```rust\<close> fence that is never closed is returned whole, fence
  included.
\<close>

theorem extract_code_strips_counterexample:
  "scenario_B = ''Here:\<newline>'' @ rust_fence @ ''\<newline>TEST_CODE\<newline>'' @ fence @ ''\<newline>Done.''
   \<and> extract_code scenario_B = ''TEST_CODE''
   \<and> extract_code scenario_B \<noteq> ''\<newline>TEST_CODE\<newline>''
   \<and> str_in rust_fence (rust_fence @ '' fn t() {}'')
   \<and> extract_code (rust_fence @ '' fn t() {}'') \<noteq> '' fn t() {}''"
  by (simp add: scenario_B_def rust_fence_def fence_def extract_code_def py_find_def
      clamp_index_def py_slice_def strip_def is_space_def Let_def)

section \<open>Properties of the Test Validator\<close>

lemmas validate_unfold = validate_tests_def try_block_def copy2_def Let_def

text \<open>
  The \<^verbatim>\<open>try\<close> block writes nothing, or the candidate's content at the original path;
  the backup holds the original's content.
\<close>

lemma try_block_files:
  "snd (try_block tp op chk tst f) = f
   \<or> (\<exists>cand. f tp = Some cand \<and> snd (try_block tp op chk tst f) = f(op \<mapsto> cand))"
  by (auto simp: try_block_def copy2_def split: option.splits run_result.splits)

lemma copy2_backup:
  "copy2 op (op @ ''.backup'') f = Inr g \<Longrightarrow> \<exists>orig. f op = Some orig \<and> g = f(op @ ''.backup'' \<mapsto> orig)"
  by (auto simp: copy2_def split: option.splits if_splits)

text \<open>
  Claim C1. Whatever the two cargo runs do and whatever the value of
  \<^verbatim>\<open>validate_tests.success\<close> at the call, when \<^verbatim>\<open>validate_tests\<close> ends, by a return or by
  an exception, the content at the original path is the content that was there before the
  call or the content that was at the candidate path before the call. When the attribute
  is \<open>False\<close> at the call, as it is at every call the driver makes, it is the content
  that was there before.
\<close>

theorem validate_tests_all_or_nothing:
  "(fsys (snd (validate_tests test_file_path original_file_path check_result test_result w))
       original_file_path = fsys w original_file_path
    \<or> fsys (snd (validate_tests test_file_path original_file_path check_result test_result w))
       original_file_path = fsys w test_file_path)
   \<and> (\<not> success w \<longrightarrow>
        fsys (snd (validate_tests test_file_path original_file_path check_result test_result w))
          original_file_path = fsys w original_file_path)"
proof -
  let ?tp = test_file_path and ?op = original_file_path
  let ?backup = "?op @ ''.backup''"
  let ?after = "fsys (snd (validate_tests ?tp ?op check_result test_result w)) ?op"
  show ?thesis
  proof (cases "copy2 ?op ?backup (fsys w)")
    case (Inl e)
    then have "?after = fsys w ?op" by (simp add: validate_tests_def Let_def)
    then show ?thesis by simp
  next
    case (Inr backed_up)
    from copy2_backup [OF Inr] obtain orig where o: "fsys w ?op = Some orig"
      and b: "backed_up = (fsys w)(?backup \<mapsto> orig)" by blast
    obtain result tried where t: "try_block ?tp ?op check_result test_result backed_up
        = (result, tried)" by (cases "try_block ?tp ?op check_result test_result backed_up")
    have bk: "tried ?backup = Some orig"
      using try_block_files [of ?tp ?op check_result test_result backed_up] t b by auto
    show ?thesis
    proof (cases "success w")
      case False
      have "copy2 ?backup ?op tried = Inr (tried(?op \<mapsto> orig))"
        using bk by (simp add: copy2_def)
      with Inr t False have "?after = Some orig" by (simp add: validate_tests_def Let_def)
      with o False show ?thesis by simp
    next
      case True
      with Inr t bk have a: "?after = tried ?op" by (simp add: validate_tests_def Let_def)
      from try_block_files [of ?tp ?op check_result test_result backed_up] t
      consider "tried = backed_up"
        | cand where "backed_up ?tp = Some cand" "tried = backed_up(?op \<mapsto> cand)" by auto
      then have "tried ?op = fsys w ?op \<or> tried ?op = fsys w ?tp"
      proof cases
        case 1
        with b show ?thesis by simp
      next
        case 2
        then show ?thesis using b o by (cases "?tp = ?backup") auto
      qed
      with a True show ?thesis by simp
    qed
  qed
qed

theorem validate_tests_all_or_nothing_witness:
  "\<not> success demo_world
   \<and> fsys (snd (validate_tests ''/tmp/updated_file.rs'' ''src/lib.rs''
                  (Returned 101) (Returned 0) demo_world)) ''src/lib.rs''
       = Some ''fn f() {}''
   \<and> fsys (snd (validate_tests ''/tmp/updated_file.rs'' ''src/lib.rs''
                  (Returned 0) TimeoutExpired demo_world)) ''src/lib.rs''
       = Some ''fn f() {}''"
  using validate_tests_all_or_nothing
      [of "''/tmp/updated_file.rs''" "''src/lib.rs''" "Returned 101" "Returned 0" demo_world]
    validate_tests_all_or_nothing
      [of "''/tmp/updated_file.rs''" "''src/lib.rs''" "Returned 0" TimeoutExpired demo_world]
  by (simp add: demo_world_def demo_files_def)

text \<open>
  One call from a state of the driver: a failing attempt returns \<open>False\<close> and leaves the
  original and the candidate in place; a passing attempt returns \<open>True\<close>. A call adds
  one to \<open>calls\<close> and leaves the metadata file alone.
\<close>

lemma validate_tests_failed:
  assumes "\<not> success w" and "fsys w op = Some orig"
    and "\<not> attempt_passes (chk, tst)"
  shows "\<exists>w'. validate_tests tp op chk tst w = (Inr False, w')
            \<and> fsys w' op = Some orig \<and> \<not> success w'
            \<and> calls w' = Suc (calls w) \<and> metadata_file w' = metadata_file w
            \<and> (tp \<noteq> op @ ''.backup'' \<longrightarrow> fsys w' tp = fsys w tp)"
  using assms
  by (auto simp: validate_unfold attempt_passes_def
      split: sum.splits option.splits run_result.splits if_splits)

lemma validate_tests_passed:
  assumes "\<not> success w" and "fsys w op = Some orig" and "fsys w tp = Some cand"
    and "tp \<noteq> op" and "tp \<noteq> op @ ''.backup''"
    and "attempt_passes (chk, tst)"
  shows "\<exists>w'. validate_tests tp op chk tst w = (Inr True, w')
            \<and> fsys w' op = Some orig \<and> fsys w' tp = Some cand
            \<and> calls w' = Suc (calls w) \<and> metadata_file w' = metadata_file w"
  using assms
  by (auto simp: validate_unfold attempt_passes_def
      split: sum.splits option.splits run_result.splits if_splits)

lemma validate_tests_calls:
  "calls (snd (validate_tests tp op chk tst w)) = Suc (calls w)
   \<and> metadata_file (snd (validate_tests tp op chk tst w)) = metadata_file w"
  by (auto simp: validate_unfold split: sum.splits option.splits run_result.splits if_splits)

lemma apply_tests_calls:
  "calls (snd (apply_tests tp op w)) = calls w
   \<and> metadata_file (snd (apply_tests tp op w)) = metadata_file w"
  by (auto simp: apply_tests_def copy2_def split: sum.splits option.splits)

lemma main_loop_all_fail:
  assumes "\<not> success w" and "fsys w op = Some orig"
    and "\<forall>k\<in>set attempts. \<not> attempt_passes (oracle k)"
  shows "\<exists>w'. main_loop attempts oracle tp op md w = (SystemExit 1, w')
            \<and> fsys w' op = Some orig
            \<and> metadata_file w'
                = Some (md\<lparr>validation_success := Some False, validation_attempts := Some 3\<rparr>)
            \<and> calls w' = calls w + length attempts"
  using assms
proof (induction attempts arbitrary: w)
  case Nil
  then show ?case by simp
next
  case (Cons attempt rest)
  have "\<not> attempt_passes (fst (oracle attempt), snd (oracle attempt))"
    using Cons.prems(3) by simp
  from validate_tests_failed [OF Cons.prems(1,2) this, of tp]
  obtain w1 where v: "validate_tests tp op (fst (oracle attempt)) (snd (oracle attempt)) w
        = (Inr False, w1)"
    and f: "fsys w1 op = Some orig" and s: "\<not> success w1"
    and c: "calls w1 = Suc (calls w)" by blast
  let ?w2 = "w1\<lparr>success := False\<rparr>"
  have "\<not> success ?w2" "fsys ?w2 op = Some orig" using f by simp_all
  from Cons.IH [OF this] Cons.prems(3)
  obtain w' where r: "main_loop rest oracle tp op md ?w2 = (SystemExit 1, w')"
    and r2: "fsys w' op = Some orig"
      "metadata_file w'
         = Some (md\<lparr>validation_success := Some False, validation_attempts := Some 3\<rparr>)"
      "calls w' = calls ?w2 + length rest" by auto
  have "main_loop (attempt # rest) oracle tp op md w = (SystemExit 1, w')"
    using v r by simp
  with r2 c show ?case by simp
qed

lemma main_loop_first_success:
  assumes "\<not> success w" and "fsys w op = Some orig" and "fsys w tp = Some cand"
    and "tp \<noteq> op" and "tp \<noteq> op @ ''.backup''"
    and "\<forall>k\<in>set before. \<not> attempt_passes (oracle k)"
    and "attempt_passes (oracle n)"
  shows "\<exists>w'. main_loop (before @ n # after) oracle tp op md w = (SystemExit 0, w')
            \<and> fsys w' op = Some cand
            \<and> metadata_file w'
                = Some (md\<lparr>validation_success := Some True, validation_attempts := Some n\<rparr>)
            \<and> calls w' = calls w + length before + 1"
  using assms
proof (induction before arbitrary: w)
  case Nil
  have "attempt_passes (fst (oracle n), snd (oracle n))" using Nil.prems(7) by simp
  from validate_tests_passed [OF Nil.prems(1,2,3,4,5) this]
  obtain w1 where v: "validate_tests tp op (fst (oracle n)) (snd (oracle n)) w = (Inr True, w1)"
    and f: "fsys w1 op = Some orig" "fsys w1 tp = Some cand"
    and c: "calls w1 = Suc (calls w)" by blast
  let ?w2 = "w1\<lparr>success := True\<rparr>"
  have a: "apply_tests tp op ?w2 = (Inr (), ?w2\<lparr>fsys := (fsys w1)(op \<mapsto> cand)\<rparr>)"
    using f Nil.prems(4) by (simp add: apply_tests_def copy2_def)
  show ?case using v a c by simp
next
  case (Cons attempt rest)
  have "\<not> attempt_passes (fst (oracle attempt), snd (oracle attempt))"
    using Cons.prems(6) by simp
  from validate_tests_failed [OF Cons.prems(1,2) this, of tp] Cons.prems(3,5)
  obtain w1 where v: "validate_tests tp op (fst (oracle attempt)) (snd (oracle attempt)) w
        = (Inr False, w1)"
    and f: "fsys w1 op = Some orig" "fsys w1 tp = Some cand"
    and c: "calls w1 = Suc (calls w)" by auto
  let ?w2 = "w1\<lparr>success := False\<rparr>"
  have p: "\<not> success ?w2" "fsys ?w2 op = Some orig" "fsys ?w2 tp = Some cand"
    using f by simp_all
  have q: "\<forall>k\<in>set rest. \<not> attempt_passes (oracle k)" using Cons.prems(6) by simp
  from Cons.IH [OF p Cons.prems(4,5) q Cons.prems(7)]
  obtain w' where r: "main_loop (rest @ n # after) oracle tp op md ?w2 = (SystemExit 0, w')"
    and r2: "fsys w' op = Some cand"
      "metadata_file w'
         = Some (md\<lparr>validation_success := Some True, validation_attempts := Some n\<rparr>)"
      "calls w' = calls ?w2 + length rest + 1" by auto
  have "main_loop ((attempt # rest) @ n # after) oracle tp op md w = (SystemExit 0, w')"
    using v r by simp
  with r2 c show ?case by simp
qed

lemma main_loop_bound:
  "calls (snd (main_loop attempts oracle tp op md w)) \<le> calls w + length attempts
   \<and> (metadata_file (snd (main_loop attempts oracle tp op md w)) = metadata_file w
      \<or> (\<exists>m n. metadata_file (snd (main_loop attempts oracle tp op md w)) = Some m
            \<and> validation_attempts m = Some n \<and> (n \<in> set attempts \<or> n = 3)))"
proof (induction attempts arbitrary: w)
  case Nil
  show ?case by simp
next
  case (Cons attempt rest)
  obtain r w1 where v: "validate_tests tp op (fst (oracle attempt)) (snd (oracle attempt)) w
      = (r, w1)" by (cases "validate_tests tp op (fst (oracle attempt)) (snd (oracle attempt)) w")
  from validate_tests_calls [of tp op "fst (oracle attempt)" "snd (oracle attempt)" w] v
  have c1: "calls w1 = Suc (calls w)" and m1: "metadata_file w1 = metadata_file w" by simp_all
  show ?case
  proof (cases r)
    case (Inl e)
    with v c1 m1 show ?thesis by simp
  next
    case (Inr result)
    show ?thesis
    proof (cases result)
      case True
      let ?w2 = "w1\<lparr>success := True\<rparr>"
      obtain u w3 where a: "apply_tests tp op ?w2 = (u, w3)" by (cases "apply_tests tp op ?w2")
      from apply_tests_calls [of tp op ?w2] a
      have c3: "calls w3 = calls w1" and m3: "metadata_file w3 = metadata_file w1" by simp_all
      show ?thesis using v Inr True a c1 c3 m1 m3 by (cases u) auto
    next
      case False
      let ?w2 = "w1\<lparr>success := False\<rparr>"
      have e: "main_loop (attempt # rest) oracle tp op md w = main_loop rest oracle tp op md ?w2"
        using v Inr False by simp
      from Cons.IH [of ?w2] c1 m1 show ?thesis unfolding e by auto
    qed
  qed
qed

text \<open>
  Claim C2. When the original file exists and none of the attempts 1, 2, 3 passes, the
  script ends with \<^verbatim>\<open>sys.exit(1)\<close>, a non-zero exit code, after three calls of
  \<^verbatim>\<open>validate_tests\<close>; the metadata written has \<^verbatim>\<open>validation_success\<close> false and
  \<^verbatim>\<open>validation_attempts\<close> 3, and the working file has the original content.
\<close>

theorem driver_exhaustion:
  assumes "files_now (original_file md) = Some orig"
    and "\<forall>k\<in>{1, 2, 3}. \<not> attempt_passes (oracle k)"
  shows "\<exists>w'. run_script oracle files_now (Some md) = (SystemExit 1, w')
     \<and> exit_code (fst (run_script oracle files_now (Some md))) \<noteq> 0
     \<and> metadata_file w'
         = Some (md\<lparr>validation_success := Some False, validation_attempts := Some 3\<rparr>)
     \<and> fsys w' (original_file md) = Some orig
     \<and> calls w' = 3"
proof -
  let ?w = "\<lparr>fsys = files_now, success = False, metadata_file = Some md, calls = 0\<rparr>"
  have a: "\<not> success ?w" "fsys ?w (original_file md) = Some orig" using assms(1) by simp_all
  have b: "\<forall>k\<in>set [1, 2, 3]. \<not> attempt_passes (oracle k)" using assms(2) by simp
  from main_loop_all_fail [OF a b, of "generated_tests_path md" md]
  obtain w' where r: "main_loop [1, 2, 3] oracle (generated_tests_path md) (original_file md) md ?w
        = (SystemExit 1, w')"
    and p: "fsys w' (original_file md) = Some orig"
      "metadata_file w'
         = Some (md\<lparr>validation_success := Some False, validation_attempts := Some 3\<rparr>)"
      "calls w' = calls ?w + length [1, 2, 3 :: int]" by blast
  have "run_script oracle files_now (Some md) = (SystemExit 1, w')"
    using r by (simp add: run_script_def main_def)
  with p show ?thesis by simp
qed

theorem driver_exhaustion_witness:
  "demo_files (original_file demo_metadata) = Some ''fn f() {}''
   \<and> \<not> attempt_passes (check_always_fails 1)
   \<and> \<not> attempt_passes (check_always_fails 2)
   \<and> \<not> attempt_passes (check_always_fails 3)
   \<and> (\<exists>w'. run_script check_always_fails demo_files (Some demo_metadata) = (SystemExit 1, w')
        \<and> exit_code (fst (run_script check_always_fails demo_files (Some demo_metadata))) \<noteq> 0
        \<and> metadata_file w'
            = Some (demo_metadata\<lparr>validation_success := Some False,
                                  validation_attempts := Some 3\<rparr>)
        \<and> fsys w' ''src/lib.rs'' = Some ''fn f() {}''
        \<and> calls w' = 3)"
proof -
  have a: "demo_files (original_file demo_metadata) = Some ''fn f() {}''"
    by (simp add: demo_files_def demo_metadata_def)
  have b: "\<forall>k\<in>{1, 2, 3}. \<not> attempt_passes (check_always_fails k)"
    by (simp add: attempt_passes_def check_always_fails_def)
  have c: "original_file demo_metadata = ''src/lib.rs''" by (simp add: demo_metadata_def)
  have d: "\<not> attempt_passes (check_always_fails 1)" "\<not> attempt_passes (check_always_fails 2)"
    "\<not> attempt_passes (check_always_fails 3)" using b by simp_all
  from driver_exhaustion [of demo_files demo_metadata "''fn f() {}''" check_always_fails] a b c d
  show ?thesis by simp
qed

text \<open>
  Claim C3. The script never calls \<^verbatim>\<open>validate_tests\<close> more than three times, and the
  metadata file at its end is the one it found or one with \<^verbatim>\<open>validation_attempts\<close>
  between 1 and 3. When the original and the candidate exist at different paths, the
  candidate not at the backup path, and attempt \<open>n\<close> of 1, 2, 3 is the first that passes,
  the script ends with \<^verbatim>\<open>sys.exit(0)\<close> after \<open>n\<close> calls, the working file has the
  candidate content, and the metadata written has \<^verbatim>\<open>validation_success\<close> true and
  \<^verbatim>\<open>validation_attempts\<close> \<open>n\<close>.
\<close>

theorem driver_retry_bound_and_first_success:
  "calls (snd (run_script oracle files_now md_file)) \<le> 3
   \<and> (metadata_file (snd (run_script oracle files_now md_file)) = md_file
      \<or> (\<exists>m n. metadata_file (snd (run_script oracle files_now md_file)) = Some m
            \<and> validation_attempts m = Some n \<and> 1 \<le> n \<and> n \<le> 3))
   \<and> (files_now (original_file md) = Some orig
        \<and> files_now (generated_tests_path md) = Some cand
        \<and> generated_tests_path md \<noteq> original_file md
        \<and> generated_tests_path md \<noteq> original_file md @ ''.backup''
        \<and> 1 \<le> n \<and> n \<le> 3
        \<and> (\<forall>k. 1 \<le> k \<and> k < n \<longrightarrow> \<not> attempt_passes (oracle k))
        \<and> attempt_passes (oracle n)
      \<longrightarrow> (\<exists>w'. run_script oracle files_now (Some md) = (SystemExit 0, w')
             \<and> fsys w' (original_file md) = Some cand
             \<and> metadata_file w'
                 = Some (md\<lparr>validation_success := Some True, validation_attempts := Some n\<rparr>)
             \<and> int (calls w') = n))"
proof (intro conjI impI)
  let ?w = "\<lparr>fsys = files_now, success = False, metadata_file = md_file, calls = 0\<rparr>"
  show "calls (snd (run_script oracle files_now md_file)) \<le> 3"
  proof (cases md_file)
    case None
    then show ?thesis by (simp add: run_script_def main_def)
  next
    case (Some m)
    with main_loop_bound [of "[1, 2, 3]" "oracle" "generated_tests_path m" "original_file m" m "?w"]
    show ?thesis by (simp add: run_script_def main_def)
  qed
  show "metadata_file (snd (run_script oracle files_now md_file)) = md_file
      \<or> (\<exists>m n. metadata_file (snd (run_script oracle files_now md_file)) = Some m
            \<and> validation_attempts m = Some n \<and> 1 \<le> n \<and> n \<le> 3)"
  proof (cases md_file)
    case None
    then show ?thesis by (simp add: run_script_def main_def)
  next
    case (Some m)
    with main_loop_bound [of "[1, 2, 3]" "oracle" "generated_tests_path m" "original_file m" m "?w"]
    show ?thesis by (auto simp: run_script_def main_def)
  qed
next
  assume h: "files_now (original_file md) = Some orig
        \<and> files_now (generated_tests_path md) = Some cand
        \<and> generated_tests_path md \<noteq> original_file md
        \<and> generated_tests_path md \<noteq> original_file md @ ''.backup''
        \<and> 1 \<le> n \<and> n \<le> 3
        \<and> (\<forall>k. 1 \<le> k \<and> k < n \<longrightarrow> \<not> attempt_passes (oracle k))
        \<and> attempt_passes (oracle n)"
  let ?w = "\<lparr>fsys = files_now, success = False, metadata_file = Some md, calls = 0\<rparr>"
  let ?tp = "generated_tests_path md" and ?op = "original_file md"
  from h have a: "\<not> success ?w" "fsys ?w ?op = Some orig" "fsys ?w ?tp = Some cand"
    "?tp \<noteq> ?op" "?tp \<noteq> ?op @ ''.backup''" by simp_all
  from h have pass: "attempt_passes (oracle n)"
    and fail: "\<forall>k. 1 \<le> k \<and> k < n \<longrightarrow> \<not> attempt_passes (oracle k)" by blast+
  from h have "n = 1 \<or> n = 2 \<or> n = 3" by auto
  then obtain before after where split: "[1, 2, 3] = before @ n # after"
    and bf: "\<forall>k\<in>set before. 1 \<le> k \<and> k < n" and len: "int (length before) + 1 = n"
  proof (elim disjE)
    assume "n = 1"
    then have "[1, 2, 3] = [] @ n # [2, 3]" "\<forall>k\<in>set []. 1 \<le> k \<and> k < n"
      "int (length ([] :: int list)) + 1 = n" by simp_all
    then show ?thesis by (rule that)
  next
    assume "n = 2"
    then have "[1, 2, 3] = [1] @ n # [3]" "\<forall>k\<in>set [1]. 1 \<le> k \<and> k < n"
      "int (length [1 :: int]) + 1 = n" by simp_all
    then show ?thesis by (rule that)
  next
    assume "n = 3"
    then have "[1, 2, 3] = [1, 2] @ n # []" "\<forall>k\<in>set [1, 2]. 1 \<le> k \<and> k < n"
      "int (length [1, 2 :: int]) + 1 = n" by simp_all
    then show ?thesis by (rule that)
  qed
  have nf: "\<forall>k\<in>set before. \<not> attempt_passes (oracle k)" using bf fail by blast
  from main_loop_first_success [OF a nf pass, of after md]
  obtain w' where r: "main_loop (before @ n # after) oracle ?tp ?op md ?w = (SystemExit 0, w')"
    and p: "fsys w' ?op = Some cand"
      "metadata_file w'
         = Some (md\<lparr>validation_success := Some True, validation_attempts := Some n\<rparr>)"
      "calls w' = calls ?w + length before + 1" by blast
  have "run_script oracle files_now (Some md) = (SystemExit 0, w')"
    using r split by (simp add: run_script_def main_def)
  moreover have "int (calls w') = n" using p(3) len by simp
  ultimately show "\<exists>w'. run_script oracle files_now (Some md) = (SystemExit 0, w')
             \<and> fsys w' (original_file md) = Some cand
             \<and> metadata_file w'
                 = Some (md\<lparr>validation_success := Some True, validation_attempts := Some n\<rparr>)
             \<and> int (calls w') = n" using p by blast
qed

theorem driver_retry_bound_and_first_success_witness:
  "demo_files (original_file demo_metadata) = Some ''fn f() {}''
   \<and> demo_files (generated_tests_path demo_metadata) = Some ''fn f() {} fn t() {}''
   \<and> generated_tests_path demo_metadata \<noteq> original_file demo_metadata
   \<and> generated_tests_path demo_metadata \<noteq> original_file demo_metadata @ ''.backup''
   \<and> \<not> attempt_passes (check_passes_third 1)
   \<and> \<not> attempt_passes (check_passes_third 2)
   \<and> attempt_passes (check_passes_third 3)
   \<and> (\<exists>w'. run_script check_passes_third demo_files (Some demo_metadata) = (SystemExit 0, w')
        \<and> fsys w' ''src/lib.rs'' = Some ''fn f() {} fn t() {}''
        \<and> metadata_file w'
            = Some (demo_metadata\<lparr>validation_success := Some True,
                                  validation_attempts := Some 3\<rparr>)
        \<and> calls w' = 3)"
proof -
  have a: "demo_files (original_file demo_metadata) = Some ''fn f() {}''"
    "demo_files (generated_tests_path demo_metadata) = Some ''fn f() {} fn t() {}''"
    "generated_tests_path demo_metadata \<noteq> original_file demo_metadata"
    "generated_tests_path demo_metadata \<noteq> original_file demo_metadata @ ''.backup''"
    by (simp_all add: demo_files_def demo_metadata_def)
  have b: "\<forall>k. 1 \<le> k \<and> k < 3 \<longrightarrow> \<not> attempt_passes (check_passes_third k)"
    "attempt_passes (check_passes_third 3)"
    by (simp_all add: attempt_passes_def check_passes_third_def)
  have c: "original_file demo_metadata = ''src/lib.rs''" by (simp add: demo_metadata_def)
  from driver_retry_bound_and_first_success
    [of check_passes_third demo_files "Some demo_metadata" demo_metadata "''fn f() {}''"
        "''fn f() {} fn t() {}''" 3] a b c
  have e: "\<exists>w'. run_script check_passes_third demo_files (Some demo_metadata) = (SystemExit 0, w')
        \<and> fsys w' ''src/lib.rs'' = Some ''fn f() {} fn t() {}''
        \<and> metadata_file w'
            = Some (demo_metadata\<lparr>validation_success := Some True,
                                  validation_attempts := Some 3\<rparr>)
        \<and> calls w' = 3" by simp
  have d: "\<not> attempt_passes (check_passes_third 1)" "\<not> attempt_passes (check_passes_third 2)"
    using b(1) by simp_all
  from a d b(2) e show ?thesis by blast
qed

end
